theory Spec2Isabelle
  imports Complex_Main "HOL-Library.Multiset"
begin

section \<open>Calendar time as the storage package uses it\<close>

text \<open>
  The storage package handles \<^verbatim>\<open>time.Time\<close> values only through \<^verbatim>\<open>Before\<close>,
  \<^verbatim>\<open>After\<close>, \<^verbatim>\<open>IsZero\<close> and \<^verbatim>\<open>AddDate\<close>.  An instant is a day number in UTC (day 0
  is 1 January of year 1, the zero value of \<^verbatim>\<open>time.Time\<close>) and the nanoseconds elapsed
  within that day.  \<^verbatim>\<open>Before\<close>, \<^verbatim>\<open>After\<close> and \<^verbatim>\<open>IsZero\<close> look at the instant only.
  \<^verbatim>\<open>AddDate\<close> works on the civil date in the location of the value, so the start date
  of a rule, the one value the package applies \<^verbatim>\<open>AddDate\<close> to, carries its location as
  well: the offset east of UTC, in seconds.  This covers \<^verbatim>\<open>time.UTC\<close> and the
  fixed-offset locations that decoding an RFC 3339 text with an offset produces; a
  location whose offset changes over the year (daylight saving) and the monotonic clock
  reading are outside the model.
\<close>

record Time =
  day :: int
  nsec :: nat

record ZonedTime = Time +
  loc :: int

definition Before :: "'a Time_scheme \<Rightarrow> 'b Time_scheme \<Rightarrow> bool" where
  "Before t u \<longleftrightarrow> day t < day u \<or> (day t = day u \<and> nsec t < nsec u)"

definition After :: "'a Time_scheme \<Rightarrow> 'b Time_scheme \<Rightarrow> bool" where
  "After t u \<longleftrightarrow> day t > day u \<or> (day t = day u \<and> nsec t > nsec u)"

definition IsZero :: "'a Time_scheme \<Rightarrow> bool" where
  "IsZero t \<longleftrightarrow> day t = 0 \<and> nsec t = 0"

text \<open>The instant of a value, and an instant presented in UTC.\<close>

definition instant :: "ZonedTime \<Rightarrow> Time" where
  "instant t = \<lparr>day = day t, nsec = nsec t\<rparr>"

definition inUTC :: "Time \<Rightarrow> ZonedTime" where
  "inUTC t = \<lparr>day = day t, nsec = nsec t, loc = 0\<rparr>"

definition isLeap :: "int \<Rightarrow> bool" where
  "isLeap y \<longleftrightarrow> y mod 4 = 0 \<and> (y mod 100 \<noteq> 0 \<or> y mod 400 = 0)"

text \<open>Days from 1 January of year 1 to 1 January of year \<open>y\<close> (proleptic Gregorian).\<close>

definition daysSinceEpoch :: "int \<Rightarrow> int" where
  "daysSinceEpoch y =
     (let p = y - 1 in 365 * p + p div 4 - p div 100 + p div 400)"

text \<open>Go's table \<^verbatim>\<open>daysBefore\<close>: days of a non-leap year before month \<open>m + 1\<close>.\<close>

definition daysBefore :: "int list" where
  "daysBefore = [0, 31, 59, 90, 120, 151, 181, 212, 243, 273, 304, 334, 365]"

text \<open>
  \<^verbatim>\<open>time.Date(year, month, day, ...)\<close> restricted to the date: the month is
  normalised into the year (Go's \<^verbatim>\<open>norm\<close>, a floor division), the day is not
  range-checked but added to the first of the month, so 31 February is 2 or 3 March.
\<close>

definition timeDate :: "int \<Rightarrow> int \<Rightarrow> int \<Rightarrow> int" where
  "timeDate year month d =
     (let m0 = month - 1;
          y = year + m0 div 12;
          m = m0 mod 12
      in daysSinceEpoch y + daysBefore ! nat m
           + (if isLeap y \<and> m \<ge> 2 then 1 else 0) + (d - 1))"

definition monthLengths :: "bool \<Rightarrow> int list" where
  "monthLengths leap =
     [31, if leap then 29 else 28, 31, 30, 31, 30, 31, 31, 30, 31, 30, 31]"

text \<open>Find month and day of month from the zero-based day of the year.\<close>

fun splitYday :: "int list \<Rightarrow> int \<Rightarrow> int \<Rightarrow> int \<times> int" where
  "splitYday [] m r = (m, r + 1)"
| "splitYday (l # ls) m r = (if r < l then (m, r + 1) else splitYday ls (m + 1) (r - l))"

text \<open>
  \<^verbatim>\<open>t.Date()\<close>: year, month and day of a day number, by 400-, 100-, 4- and 1-year
  cycles.
\<close>

definition civil :: "int \<Rightarrow> int \<times> int \<times> int" where
  "civil n =
     (let q400 = n div 146097; r400 = n mod 146097;
          c = min (r400 div 36524) 3; r100 = r400 - c * 36524;
          q = r100 div 1461; r4 = r100 mod 1461;
          a = min (r4 div 365) 3; yday = r4 - a * 365;
          y = 400 * q400 + 100 * c + 4 * q + a + 1;
          (m, d) = splitYday (monthLengths (isLeap y)) 1 yday
      in (y, m, d))"

text \<open>
  The day number of the civil date \<^verbatim>\<open>t.Date()\<close> reads: the seconds since day 0 on the
  clock of the location of \<open>t\<close>, in whole days.
\<close>

definition localDay :: "ZonedTime \<Rightarrow> int" where
  "localDay t = (day t * 86400 + int (nsec t div 1000000000) + loc t) div 86400"

text \<open>
  \<^verbatim>\<open>t.AddDate(years, months, days)\<close> is
  \<^verbatim>\<open>Date(year + years, month + months, day + days, hour, min, sec, nsec, t.Location())\<close>
  with the date and the clock reading of \<open>t\<close> in its location.  The clock reading and
  the offset of the result are those of \<open>t\<close>, so the instant moves by as many whole days
  as the renormalised civil date lies after the civil date of \<open>t\<close>.
\<close>

definition AddDate :: "int \<Rightarrow> int \<Rightarrow> int \<Rightarrow> ZonedTime \<Rightarrow> ZonedTime" where
  "AddDate years months days t =
     (case civil (localDay t) of (y, m, d) \<Rightarrow>
        t\<lparr>day := day t + (timeDate (y + years) (m + months) (d + days) - localDay t)\<rparr>)"

subsection \<open>The calendar functions invert each other\<close>

lemma divmod_int_unique:
  fixes b :: int
  assumes "p = b * x + r" "0 \<le> r" "r < b"
  shows "p div b = x" "p mod b = r"
  using assms by (simp_all add: div_pos_pos_trivial mod_pos_pos_trivial)

lemma divmod_int_split:
  fixes b :: int
  assumes "0 < b"
  obtains x r where "a = b * x + r" "0 \<le> r" "r < b" "a div b = x" "a mod b = r"
  using assms by (metis mult_div_mod_eq pos_mod_bound pos_mod_sign)

lemma splitYday_spec:
  "\<lbrakk>0 \<le> r; r < sum_list ls; \<forall>l \<in> set ls. 0 < l; splitYday ls m r = (m', d')\<rbrakk>
   \<Longrightarrow> m \<le> m' \<and> m' < m + int (length ls) \<and> 1 \<le> d'
       \<and> sum_list (take (nat (m' - m)) ls) + (d' - 1) = r"
proof (induction ls arbitrary: m r)
  case Nil
  then show ?case by simp
next
  case (Cons l ls)
  show ?case
  proof (cases "r < l")
    case True
    with Cons.prems show ?thesis by auto
  next
    case False
    with Cons.prems have s: "splitYday ls (m + 1) (r - l) = (m', d')" by simp
    have "m + 1 \<le> m' \<and> m' < m + 1 + int (length ls) \<and> 1 \<le> d'
       \<and> sum_list (take (nat (m' - (m + 1))) ls) + (d' - 1) = r - l"
      using Cons.IH[OF _ _ _ s] Cons.prems False by auto
    moreover have "m + 1 \<le> m' \<Longrightarrow> take (nat (m' - m)) (l # ls) = l # take (nat (m' - (m + 1))) ls"
    proof -
      assume "m + 1 \<le> m'"
      then have "nat (m' - m) = Suc (nat (m' - (m + 1)))" by arith
      then show ?thesis by simp
    qed
    ultimately show ?thesis by auto
  qed
qed

lemma daysBefore_sum:
  assumes "k < 12"
  shows "daysBefore ! k + (if leap \<and> 2 \<le> k then 1 else 0) = sum_list (take k (monthLengths leap))"
proof -
  from assms have "k = 0 \<or> k = 1 \<or> k = 2 \<or> k = 3 \<or> k = 4 \<or> k = 5 \<or> k = 6 \<or> k = 7
      \<or> k = 8 \<or> k = 9 \<or> k = 10 \<or> k = 11" by arith
  then show ?thesis
    by (elim disjE) (simp_all add: daysBefore_def monthLengths_def)
qed

lemma sum_monthLengths: "sum_list (monthLengths leap) = (if leap then 366 else 365)"
  by (simp add: monthLengths_def)

lemma monthLengths_pos: "\<forall>l \<in> set (monthLengths leap). 0 < l"
  by (simp add: monthLengths_def)

lemma year_cycles:
  fixes n :: int
  assumes "r400 = n mod 146097" "c = min (r400 div 36524) 3" "r100 = r400 - c * 36524"
      "q = r100 div 1461" "r4 = r100 mod 1461" "a = min (r4 div 365) 3" "yday = r4 - a * 365"
      "p = 400 * (n div 146097) + 100 * c + 4 * q + a"
  shows "0 \<le> yday" "yday < (if isLeap (p + 1) then 366 else 365)"
        "365 * p + p div 4 - p div 100 + p div 400 = n - yday"
proof -
  define k where "k = n div 146097"
  have n: "n = 146097 * k + r400" and r400: "0 \<le> r400" "r400 < 146097"
    using assms(1) k_def by simp_all
  obtain c' s where c': "r400 = 36524 * c' + s" "0 \<le> s" "s < 36524" "r400 div 36524 = c'"
    by (rule divmod_int_split[of 36524 r400]) simp_all
  have c'b: "0 \<le> c'" "c' \<le> 4" using c'(1,2,3) r400 by linarith+
  have c: "0 \<le> c" "c \<le> 3" using assms(2) c'(4) c'b by simp_all
  have r100: "0 \<le> r100" "r100 \<le> 36524" "c < 3 \<Longrightarrow> r100 < 36524"
  proof -
    have "c = c' \<or> (c = 3 \<and> c' = 4)" using assms(2) c'(4) c'b by (auto simp: min_def)
    then show "0 \<le> r100" "r100 \<le> 36524" "c < 3 \<Longrightarrow> r100 < 36524"
      using assms(3) c'(1,2,3) r400 by auto
  qed
  have r4: "0 \<le> r4" "r4 < 1461" "r100 = 1461 * q + r4" using assms(4,5) by simp_all
  have q: "0 \<le> q" "q \<le> 24" using r4 r100 by linarith+
  obtain a' t where a': "r4 = 365 * a' + t" "0 \<le> t" "t < 365" "r4 div 365 = a'"
    by (rule divmod_int_split[of 365 r4]) simp_all
  have a'b: "0 \<le> a'" "a' \<le> 4" using a'(1,2,3) r4 by linarith+
  have a: "0 \<le> a" "a \<le> 3" using assms(6) a'(4) a'b by simp_all
  have yd: "0 \<le> yday" "yday \<le> 365" "a < 3 \<Longrightarrow> yday < 365"
  proof -
    have "a = a' \<or> (a = 3 \<and> a' = 4)" using assms(6) a'(4) a'b by (auto simp: min_def)
    then show "0 \<le> yday" "yday \<le> 365" "a < 3 \<Longrightarrow> yday < 365"
      using assms(7) a'(1,2,3) r4 by auto
  qed
  show "0 \<le> yday" by fact
  have p: "p = 400 * k + 100 * c + 4 * q + a" using assms(8) k_def by simp
  have d4: "p div 4 = 100 * k + 25 * c + q"
    by (rule divmod_int_unique(1)[where r = a]) (use p a in auto)
  have d100: "p div 100 = 4 * k + c"
    by (rule divmod_int_unique(1)[where r = "4 * q + a"]) (use p a q in auto)
  have d400: "p div 400 = k"
    by (rule divmod_int_unique(1)[where r = "100 * c + 4 * q + a"]) (use p a q c in auto)
  have "n = 146097 * k + 36524 * c + 1461 * q + 365 * a + yday"
    using n assms(3,7) r4(3) by simp
  then show "365 * p + p div 4 - p div 100 + p div 400 = n - yday"
    using d4 d100 d400 p by simp
  show "yday < (if isLeap (p + 1) then 366 else 365)"
  proof (cases "yday = 365")
    case False
    then show ?thesis using yd by auto
  next
    case True
    then have a3: "a = 3" using yd(3) a by linarith
    then have r4v: "r4 = 1460" using True assms(7) by simp
    have m4: "(p + 1) mod 4 = 0"
      by (rule divmod_int_unique(2)[where x = "100 * k + 25 * c + q + 1"]) (use p a3 in auto)
    have "isLeap (p + 1)"
    proof (cases "q = 24")
      case False
      have "(p + 1) mod 100 = 4 * q + 4"
        by (rule divmod_int_unique(2)[where x = "4 * k + c"]) (use p a3 q False in auto)
      then have "(p + 1) mod 100 \<noteq> 0" using q by linarith
      then show ?thesis using m4 by (simp add: isLeap_def)
    next
      case q24: True
      then have "r100 = 36524" using r4(3) r4v by simp
      then have c3: "c = 3" using r100(3) c by linarith
      have "(p + 1) mod 400 = 0"
        by (rule divmod_int_unique(2)[where x = "k + 1"]) (use p a3 q24 c3 in auto)
      then show ?thesis using m4 by (simp add: isLeap_def)
    qed
    then show ?thesis using True by simp
  qed
qed

lemma timeDate_civil:
  assumes cv: "civil n = (y, m, d)"
  shows "timeDate y m d = n \<and> 1 \<le> m \<and> m \<le> 12 \<and> 1 \<le> d"
proof -
  define r400 where "r400 = n mod 146097"
  define c where "c = min (r400 div 36524) 3"
  define r100 where "r100 = r400 - c * 36524"
  define q where "q = r100 div 1461"
  define r4 where "r4 = r100 mod 1461"
  define a where "a = min (r4 div 365) 3"
  define yday where "yday = r4 - a * 365"
  define p where "p = 400 * (n div 146097) + 100 * c + 4 * q + a"
  note yc = year_cycles[OF r400_def c_def r100_def q_def r4_def a_def yday_def p_def]
  obtain m' d' where sp': "splitYday (monthLengths (isLeap (p + 1))) 1 yday = (m', d')"
    by (cases "splitYday (monthLengths (isLeap (p + 1))) 1 yday") auto
  have "civil n = (p + 1, m', d')"
    using sp'
    unfolding civil_def Let_def r400_def c_def r100_def q_def r4_def a_def yday_def p_def
    by (simp only: prod.case add.commute add.left_commute add.assoc)
  with cv sp' have y: "y = p + 1"
    and sp: "splitYday (monthLengths (isLeap (p + 1))) 1 yday = (m, d)"
    by simp_all
  have "yday < sum_list (monthLengths (isLeap (p + 1)))"
    using yc(2) by (simp add: sum_monthLengths)
  from splitYday_spec[OF yc(1) this monthLengths_pos sp]
  have m: "1 \<le> m" "m < 13" "1 \<le> d"
    and s: "sum_list (take (nat (m - 1)) (monthLengths (isLeap (p + 1)))) + (d - 1) = yday"
    by (simp_all add: monthLengths_def)
  have k: "nat (m - 1) < 12" using m by simp
  have mm: "(m - 1) div 12 = 0" "(m - 1) mod 12 = m - 1" using m by simp_all
  have ge: "(2 \<le> nat (m - 1)) = (2 \<le> m - 1)" using m by arith
  have "timeDate y m d = daysSinceEpoch y + yday"
    unfolding timeDate_def Let_def mm using daysBefore_sum[OF k, of "isLeap (p + 1)"] s y
    unfolding ge by simp
  also have "\<dots> = n" using yc(3) y by (simp add: daysSinceEpoch_def Let_def)
  finally show ?thesis using m by simp
qed

lemma localDay_shift: "localDay (t\<lparr>day := day t + k\<rparr>) = localDay t + k"
proof -
  have "(day t + k) * 86400 + int (nsec t div 1000000000) + loc t
      = (day t * 86400 + int (nsec t div 1000000000) + loc t) + k * 86400"
    by (simp add: algebra_simps)
  then show ?thesis by (simp add: localDay_def)
qed

lemma AddDate_days: "AddDate 0 0 k t = t\<lparr>day := day t + k\<rparr>"
proof -
  obtain y m d where c: "civil (localDay t) = (y, m, d)" by (cases "civil (localDay t)") auto
  have "timeDate y m (d + k) = timeDate y m d + k" by (simp add: timeDate_def Let_def)
  then show ?thesis using timeDate_civil[OF c] c by (simp add: AddDate_def)
qed

lemma daysSinceEpoch_Suc: "daysSinceEpoch y + 364 \<le> daysSinceEpoch (y + 1)"
proof -
  have a: "(y - 1) div 4 \<le> y div 4" and c: "(y - 1) div 400 \<le> y div 400"
    by (simp_all add: zdiv_mono1)
  have b: "y div 100 \<le> (y - 1) div 100 + 1"
  proof -
    have "y div 100 = ((y - 1) + 1) div 100" by simp
    also have "\<dots> \<le> ((y - 1) + 100) div 100" by (rule zdiv_mono1) simp_all
    also have "\<dots> = (y - 1) div 100 + 1" by simp
    finally show ?thesis .
  qed
  define a0 b0 c0 a1 b1 c1 where "a0 = (y - 1) div 4" and "b0 = (y - 1) div 100"
    and "c0 = (y - 1) div 400" and "a1 = y div 4" and "b1 = y div 100" and "c1 = y div 400"
  have e: "daysSinceEpoch y = 365 * (y - 1) + a0 - b0 + c0"
    "daysSinceEpoch (y + 1) = 365 * y + a1 - b1 + c1"
    by (simp_all add: daysSinceEpoch_def Let_def a0_def b0_def c0_def a1_def b1_def c1_def)
  have i: "a0 \<le> a1" "b1 \<le> b0 + 1" "c0 \<le> c1"
    using a b c by (simp_all only: a0_def b0_def c0_def a1_def b1_def c1_def)
  show ?thesis unfolding e using i by (simp add: algebra_simps)
qed

lemma timeDate_next_year:
  assumes "1 \<le> m" "m \<le> 12"
  shows "timeDate y m d < timeDate (y + 1) m d"
proof -
  have mm: "(m - 1) div 12 = 0" "(m - 1) mod 12 = m - 1" using assms by simp_all
  show ?thesis unfolding timeDate_def Let_def mm
    using daysSinceEpoch_Suc[of y] by simp
qed

lemma timeDate_next_month:
  assumes "1 \<le> m" "m \<le> 12"
  shows "timeDate y m d < timeDate y (m + 1) d"
proof (cases "m = 12")
  case True
  have "daysBefore ! 11 = 334" "daysBefore ! 0 = 0" by (simp_all add: daysBefore_def)
  then show ?thesis unfolding timeDate_def Let_def True
    using daysSinceEpoch_Suc[of y] by simp
next
  case False
  with assms have lt: "m < 12" by simp
  have mm: "(m - 1) div 12 = 0" "(m - 1) mod 12 = m - 1" "m div 12 = 0" "m mod 12 = m"
    using assms lt by simp_all
  from assms lt have "m = 1 \<or> m = 2 \<or> m = 3 \<or> m = 4 \<or> m = 5 \<or> m = 6 \<or> m = 7
      \<or> m = 8 \<or> m = 9 \<or> m = 10 \<or> m = 11" by arith
  then have "daysBefore ! nat (m - 1) + 28 \<le> daysBefore ! nat m" "2 \<le> m - 1 \<longrightarrow> 2 \<le> m"
    by (elim disjE; simp add: daysBefore_def)+
  then show ?thesis unfolding timeDate_def Let_def by (simp add: mm)
qed

lemma AddDate_month_progress: "day t < day (AddDate 0 1 0 t)"
proof -
  obtain y m d where c: "civil (localDay t) = (y, m, d)" by (cases "civil (localDay t)") auto
  show ?thesis using timeDate_civil[OF c] c timeDate_next_month[of m y d]
    by (simp add: AddDate_def)
qed

lemma AddDate_year_progress: "day t < day (AddDate 1 0 0 t)"
proof -
  obtain y m d where c: "civil (localDay t) = (y, m, d)" by (cases "civil (localDay t)") auto
  show ?thesis using timeDate_civil[OF c] c timeDate_next_year[of m y d]
    by (simp add: AddDate_def)
qed

subsection \<open>Steps from a day every month has\<close>

text \<open>
  From a civil date whose day of the month is at most 28, adding months or years never
  overflows the month, so \<open>k\<close> single steps are one step of \<open>k\<close> months or years.
\<close>

lemma div_pred_int:
  fixes b :: int
  assumes "0 < b"
  shows "y div b = (y - 1) div b + (if y mod b = 0 then 1 else 0)"
proof -
  obtain q r where qr: "y - 1 = b * q + r" "0 \<le> r" "r < b" "(y - 1) div b = q"
    by (rule divmod_int_split[OF assms, of "y - 1"]) simp
  show ?thesis
  proof (cases "r = b - 1")
    case True
    then have y: "y = b * (q + 1) + 0" using qr(1) by (simp add: algebra_simps)
    have "y div b = q + 1" "y mod b = 0"
      using divmod_int_unique[OF y] assms by simp_all
    then show ?thesis using qr(4) by simp
  next
    case False
    then have y: "y = b * q + (r + 1)" and b: "0 \<le> r + 1" "r + 1 < b" using qr by simp_all
    have "y div b = q" "y mod b = r + 1"
      using divmod_int_unique[OF y b] by simp_all
    then show ?thesis using qr(2,4) by simp
  qed
qed

lemma daysSinceEpoch_next:
  "daysSinceEpoch (y + 1) = daysSinceEpoch y + (if isLeap y then 366 else 365)"
proof -
  define p4 p100 p400 where "p4 \<longleftrightarrow> y mod 4 = 0" and "p100 \<longleftrightarrow> y mod 100 = 0"
    and "p400 \<longleftrightarrow> y mod 400 = 0"
  have m4: "p100 \<longrightarrow> p4"
  proof
    assume p100
    then have z: "y mod 100 = 0" by (simp add: p100_def)
    have "y mod 4 = (y mod 100) mod 4" by (rule mod_mod_cancel[symmetric]) simp
    also have "\<dots> = 0" unfolding z by simp
    finally show p4 by (simp add: p4_def)
  qed
  have m100: "p400 \<longrightarrow> p100"
  proof
    assume p400
    then have z: "y mod 400 = 0" by (simp add: p400_def)
    have "y mod 100 = (y mod 400) mod 100" by (rule mod_mod_cancel[symmetric]) simp
    also have "\<dots> = 0" unfolding z by simp
    finally show p100 by (simp add: p100_def)
  qed
  have leap: "isLeap y \<longleftrightarrow> p4 \<and> (\<not> p100 \<or> p400)"
    by (simp add: isLeap_def p4_def p100_def p400_def)
  define a0 b0 c0 where "a0 = (y - 1) div 4" and "b0 = (y - 1) div 100" and "c0 = (y - 1) div 400"
  have d4: "y div 4 = a0 + (if p4 then 1 else 0)"
    unfolding a0_def p4_def by (rule div_pred_int) simp
  have d100: "y div 100 = b0 + (if p100 then 1 else 0)"
    unfolding b0_def p100_def by (rule div_pred_int) simp
  have d400: "y div 400 = c0 + (if p400 then 1 else 0)"
    unfolding c0_def p400_def by (rule div_pred_int) simp
  have e: "daysSinceEpoch y = 365 * (y - 1) + a0 - b0 + c0"
    by (simp add: daysSinceEpoch_def Let_def a0_def b0_def c0_def)
  have "daysSinceEpoch (y + 1) = 365 * y + y div 4 - y div 100 + y div 400"
    by (simp add: daysSinceEpoch_def Let_def)
  then have "daysSinceEpoch (y + 1)
      = 365 * y + (a0 + (if p4 then 1 else 0)) - (b0 + (if p100 then 1 else 0))
          + (c0 + (if p400 then 1 else 0))"
    by (simp only: d4 d100 d400)
  then show ?thesis unfolding e leap using m4 m100 by (cases p4; cases p100; cases p400) simp_all
qed

lemma daysSinceEpoch_mono: "y \<le> y' \<Longrightarrow> daysSinceEpoch y \<le> daysSinceEpoch y'"
proof (induction y' rule: int_ge_induct)
  case base
  show ?case by simp
next
  case (step i)
  then show ?case using daysSinceEpoch_Suc[of i] by simp
qed

lemma year_unique:
  assumes "daysSinceEpoch y + r = daysSinceEpoch y' + r'"
    and "0 \<le> r" "r < (if isLeap y then 366 else 365)"
    and "0 \<le> r'" "r' < (if isLeap y' then 366 else 365)"
  shows "y = y' \<and> r = r'"
proof -
  have False if "y < y'"
  proof -
    have "daysSinceEpoch (y + 1) \<le> daysSinceEpoch y'" using that by (intro daysSinceEpoch_mono) simp
    then show False using assms daysSinceEpoch_next[of y] by (simp split: if_splits)
  qed
  moreover have False if "y' < y"
  proof -
    have "daysSinceEpoch (y' + 1) \<le> daysSinceEpoch y" using that by (intro daysSinceEpoch_mono) simp
    then show False using assms daysSinceEpoch_next[of y'] by (simp split: if_splits)
  qed
  ultimately have "y = y'" by force
  then show ?thesis using assms(1) by simp
qed

lemma civil_yday:
  obtains y yd where "civil n = (y, splitYday (monthLengths (isLeap y)) 1 yd)"
    "0 \<le> yd" "yd < (if isLeap y then 366 else 365)" "daysSinceEpoch y + yd = n"
proof -
  define r400 where "r400 = n mod 146097"
  define c where "c = min (r400 div 36524) 3"
  define r100 where "r100 = r400 - c * 36524"
  define q where "q = r100 div 1461"
  define r4 where "r4 = r100 mod 1461"
  define a where "a = min (r4 div 365) 3"
  define yday where "yday = r4 - a * 365"
  define p where "p = 400 * (n div 146097) + 100 * c + 4 * q + a"
  note yc = year_cycles[OF r400_def c_def r100_def q_def r4_def a_def yday_def p_def]
  obtain m' d' where sp': "splitYday (monthLengths (isLeap (p + 1))) 1 yday = (m', d')"
    by (cases "splitYday (monthLengths (isLeap (p + 1))) 1 yday") auto
  have "civil n = (p + 1, m', d')"
    using sp'
    unfolding civil_def Let_def r400_def c_def r100_def q_def r4_def a_def yday_def p_def
    by (simp only: prod.case add.commute add.left_commute add.assoc)
  then have 1: "civil n = (p + 1, splitYday (monthLengths (isLeap (p + 1))) 1 yday)"
    using sp' by simp
  have 2: "daysSinceEpoch (p + 1) + yday = n"
    using yc(3) by (simp add: daysSinceEpoch_def Let_def)
  show ?thesis using that[OF 1 yc(1) yc(2) 2] .
qed

lemma splitYday_take:
  "\<lbrakk>j < length ls; 0 \<le> r; r < ls ! j; \<forall>l \<in> set ls. 0 \<le> l\<rbrakk>
   \<Longrightarrow> splitYday ls m (sum_list (take j ls) + r) = (m + int j, r + 1)"
proof (induction ls arbitrary: j m)
  case Nil
  then show ?case by simp
next
  case (Cons l ls)
  show ?case
  proof (cases j)
    case 0
    then show ?thesis using Cons.prems by simp
  next
    case (Suc j')
    have nn: "0 \<le> sum_list (take j' ls)"
      using Cons.prems(4) by (intro sum_list_nonneg) (auto dest: in_set_takeD)
    have "splitYday ls (m + 1) (sum_list (take j' ls) + r) = (m + 1 + int j', r + 1)"
      using Cons.prems Suc by (intro Cons.IH) auto
    then show ?thesis using Suc nn Cons.prems(2,4) by simp
  qed
qed

lemma monthLengths_28:
  assumes "j < 12"
  shows "28 \<le> monthLengths leap ! j"
    and "sum_list (take j (monthLengths leap)) + monthLengths leap ! j
           \<le> (if leap then 366 else 365)"
proof -
  from assms have "j = 0 \<or> j = 1 \<or> j = 2 \<or> j = 3 \<or> j = 4 \<or> j = 5 \<or> j = 6 \<or> j = 7
      \<or> j = 8 \<or> j = 9 \<or> j = 10 \<or> j = 11" by arith
  then show "28 \<le> monthLengths leap ! j"
    and "sum_list (take j (monthLengths leap)) + monthLengths leap ! j
           \<le> (if leap then 366 else 365)"
    by (elim disjE; simp add: monthLengths_def)+
qed

lemma civil_timeDate_normal:
  assumes "1 \<le> m" "m \<le> 12" "1 \<le> d" "d \<le> 28"
  shows "civil (timeDate y m d) = (y, m, d)"
proof -
  let ?ls = "monthLengths (isLeap y)"
  have k: "nat (m - 1) < 12" using assms by simp
  have mm: "(m - 1) div 12 = 0" "(m - 1) mod 12 = m - 1" using assms by simp_all
  have ge: "(2 \<le> nat (m - 1)) = (2 \<le> m - 1)" using assms by arith
  have td: "timeDate y m d = daysSinceEpoch y + (sum_list (take (nat (m - 1)) ?ls) + (d - 1))"
    unfolding timeDate_def Let_def mm using daysBefore_sum[OF k, of "isLeap y"]
    unfolding ge by simp
  have nn: "0 \<le> sum_list (take (nat (m - 1)) ?ls)"
    using monthLengths_pos[of "isLeap y"]
    by (intro sum_list_nonneg) (auto dest!: in_set_takeD simp: less_imp_le)
  have lt: "d - 1 < ?ls ! nat (m - 1)" using monthLengths_28(1)[OF k, of "isLeap y"] assms by simp
  have r: "0 \<le> sum_list (take (nat (m - 1)) ?ls) + (d - 1)"
      "sum_list (take (nat (m - 1)) ?ls) + (d - 1) < (if isLeap y then 366 else 365)"
    using nn assms(3) lt monthLengths_28(2)[OF k, of "isLeap y"] by auto
  obtain y' yd where c: "civil (timeDate y m d) = (y', splitYday (monthLengths (isLeap y')) 1 yd)"
      "0 \<le> yd" "yd < (if isLeap y' then 366 else 365)" "daysSinceEpoch y' + yd = timeDate y m d"
    by (rule civil_yday)
  have u: "y' = y \<and> yd = sum_list (take (nat (m - 1)) ?ls) + (d - 1)"
    by (rule year_unique[OF _ c(2,3) r]) (use c(4) td in simp)
  have pos: "\<forall>l \<in> set ?ls. 0 \<le> l" using monthLengths_pos[of "isLeap y"] by (auto simp: less_imp_le)
  have "splitYday ?ls 1 (sum_list (take (nat (m - 1)) ?ls) + (d - 1)) = (1 + int (nat (m - 1)), d - 1 + 1)"
    by (rule splitYday_take) (use k assms(3) lt pos in \<open>simp_all add: monthLengths_def\<close>)
  then show ?thesis using c(1) u assms(1) by simp
qed

lemma timeDate_carry: "timeDate (y + a) m d = timeDate y (m + 12 * a) d"
proof -
  have e: "m + 12 * a - 1 = (m - 1) + a * 12" by simp
  have dm: "(m + 12 * a - 1) div 12 = (m - 1) div 12 + a" "(m + 12 * a - 1) mod 12 = (m - 1) mod 12"
    unfolding e by simp_all
  have y: "y + a + (m - 1) div 12 = y + ((m - 1) div 12 + a)" by simp
  show ?thesis unfolding timeDate_def Let_def dm y ..
qed

lemma civil_timeDate:
  assumes "1 \<le> d" "d \<le> 28"
  shows "civil (timeDate y m d) = (y + (m - 1) div 12, (m - 1) mod 12 + 1, d)"
proof -
  have "timeDate y m d = timeDate (y + (m - 1) div 12) ((m - 1) mod 12 + 1) d"
    by (simp add: timeDate_def Let_def)
  then show ?thesis using civil_timeDate_normal[of "(m - 1) mod 12 + 1" d "y + (m - 1) div 12"] assms
    by simp
qed

text \<open>The day of the month of \<^verbatim>\<open>t.Date()\<close>.\<close>

definition dayOfMonth :: "ZonedTime \<Rightarrow> int" where
  "dayOfMonth t = (case civil (localDay t) of (y, m, d) \<Rightarrow> d)"

lemma AddDate_localDay:
  assumes "civil (localDay t) = (y, m, d)"
  shows "localDay (AddDate years months days t) = timeDate (y + years) (m + months) (d + days)"
  using assms localDay_shift[of t "timeDate (y + years) (m + months) (d + days) - localDay t"]
  by (simp add: AddDate_def)

lemma AddDate_month_after:
  assumes "dayOfMonth t \<le> 28"
  shows "AddDate 0 1 0 (AddDate 0 k 0 t) = AddDate 0 (k + 1) 0 t"
proof -
  obtain y m d where c: "civil (localDay t) = (y, m, d)" by (cases "civil (localDay t)") auto
  have d: "1 \<le> d" "d \<le> 28" using timeDate_civil[OF c] assms c by (simp_all add: dayOfMonth_def)
  let ?t1 = "AddDate 0 k 0 t"
  have l1: "localDay ?t1 = timeDate y (m + k) d" using AddDate_localDay[OF c, of 0 k 0] by simp
  have c1: "civil (localDay ?t1) = (y + (m + k - 1) div 12, (m + k - 1) mod 12 + 1, d)"
    unfolding l1 by (rule civil_timeDate[OF d])
  have "timeDate (y + (m + k - 1) div 12) ((m + k - 1) mod 12 + 1 + 1) d = timeDate y (m + k + 1) d"
    unfolding timeDate_carry by (simp add: algebra_simps)
  then have "AddDate 0 1 0 ?t1 = ?t1\<lparr>day := day ?t1 + (timeDate y (m + k + 1) d - localDay ?t1)\<rparr>"
    using c1 by (simp add: AddDate_def[of 0 1 0])
  also have "\<dots> = AddDate 0 (k + 1) 0 t"
    unfolding l1 using c by (simp add: AddDate_def algebra_simps)
  finally show ?thesis .
qed

lemma AddDate_year_after:
  assumes "dayOfMonth t \<le> 28"
  shows "AddDate 1 0 0 (AddDate k 0 0 t) = AddDate (k + 1) 0 0 t"
proof -
  obtain y m d where c: "civil (localDay t) = (y, m, d)" by (cases "civil (localDay t)") auto
  have d: "1 \<le> m" "m \<le> 12" "1 \<le> d" "d \<le> 28"
    using timeDate_civil[OF c] assms c by (simp_all add: dayOfMonth_def)
  let ?t1 = "AddDate k 0 0 t"
  have l1: "localDay ?t1 = timeDate (y + k) m d" using AddDate_localDay[OF c, of k 0 0] by simp
  have c1: "civil (localDay ?t1) = (y + k, m, d)"
    unfolding l1 by (rule civil_timeDate_normal[OF d])
  have "AddDate 1 0 0 ?t1 = ?t1\<lparr>day := day ?t1 + (timeDate (y + k + 1) m d - localDay ?t1)\<rparr>"
    using c1 by (simp add: AddDate_def[of 1 0 0])
  also have "\<dots> = AddDate (k + 1) 0 0 t"
    unfolding l1 using c by (simp add: AddDate_def algebra_simps)
  finally show ?thesis .
qed

lemma AddDate_none: "AddDate 0 0 0 t = t"
  by (simp add: AddDate_days)

lemma AddDate_months_closed:
  "dayOfMonth t \<le> 28 \<Longrightarrow> (AddDate 0 1 0 ^^ k) t = AddDate 0 (int k) 0 t"
proof (induction k)
  case 0
  show ?case by (simp add: AddDate_none)
next
  case (Suc k)
  then show ?case using AddDate_month_after[of t "int k"] by (simp add: algebra_simps)
qed

lemma AddDate_years_closed:
  "dayOfMonth t \<le> 28 \<Longrightarrow> (AddDate 1 0 0 ^^ k) t = AddDate (int k) 0 0 t"
proof (induction k)
  case 0
  show ?case by (simp add: AddDate_none)
next
  case (Suc k)
  then show ?case using AddDate_year_after[of t "int k"] by (simp add: algebra_simps)
qed


section \<open>Record model\<close>

text \<open>
  The structs of \<^verbatim>\<open>storage.go\<close>.  \<^verbatim>\<open>float64\<close> amounts are carried through the
  store unchanged and never computed with, so they are modelled as real numbers.  A nil
  slice and an empty slice are both the empty list.  The fields of a rule carry the
  prefix \<open>r\<close> and those of the configuration the prefix \<open>c\<close> where the name is
  already taken by a field of \<^verbatim>\<open>Expense\<close>.
\<close>

record Expense =
  ID :: string
  RecurringID :: string
  Name :: string
  Tags :: "string list"
  Category :: string
  Amount :: real
  Currency :: string
  Date :: Time

record RecurringExpense =
  rID :: string
  rName :: string
  rAmount :: real
  rCurrency :: string
  rTags :: "string list"
  rCategory :: string
  StartDate :: ZonedTime
  Interval :: string
  Occurrences :: int

record Config =
  Categories :: "string list"
  cCurrency :: string
  cStartDate :: int
  RecurringExpenses :: "RecurringExpense list"

text \<open>
  Errors are Go \<^verbatim>\<open>error\<close> values built with \<^verbatim>\<open>fmt.Errorf\<close>; the model keeps the
  kind of each one: an identifier that is not stored, a value rejected by a check, a
  failing file or database access, a primary-key conflict, the arity error of
  \<^verbatim>\<open>database/sql\<close> (\<^verbatim>\<open>expected n destination arguments in Scan, not k\<close>), a column
  value that does not convert to its destination, and a runtime panic.
\<close>

datatype error =
    NotFound
  | Invalid
  | SubstrateFailure
  | UniqueViolation
  | ScanArity nat nat
  | ScanType
  | Panic

section \<open>Recurrence engine\<close>

text \<open>
  The \<^verbatim>\<open>switch recExp.Interval\<close> that both loops of
  \<^verbatim>\<open>generateExpensesFromRecurring\<close> contain; \<open>None\<close> is its \<^verbatim>\<open>default\<close> branch.
\<close>

definition stepInterval :: "string \<Rightarrow> ZonedTime \<Rightarrow> ZonedTime option" where
  "stepInterval interval currentDate =
     (if interval = ''daily'' then Some (AddDate 0 0 1 currentDate)
      else if interval = ''weekly'' then Some (AddDate 0 0 7 currentDate)
      else if interval = ''monthly'' then Some (AddDate 0 1 0 currentDate)
      else if interval = ''yearly'' then Some (AddDate 1 0 0 currentDate)
      else None)"

lemma stepInterval_progress:
  assumes "stepInterval interval t = Some t'"
  shows "day t < day t'"
  using assms AddDate_month_progress[of t] AddDate_year_progress[of t]
  by (auto simp: stepInterval_def AddDate_days split: if_splits)

text \<open>
  The fast-forward loop taken when \<^verbatim>\<open>fromToday\<close> is set.  It returns the cursor and
  the remaining budget, or \<open>None\<close> when the \<^verbatim>\<open>default\<close> branch returns from the whole
  function.  With \<^verbatim>\<open>Occurrences == 0\<close> the budget is never decremented and the loop ends
  only because the cursor advances.
\<close>

function fastForward ::
    "RecurringExpense \<Rightarrow> Time \<Rightarrow> ZonedTime \<Rightarrow> int \<Rightarrow> (ZonedTime \<times> int) option" where
  "fastForward recExp today currentDate occurrencesToGenerate =
     (if Before currentDate today \<and> (Occurrences recExp = 0 \<or> occurrencesToGenerate > 0)
      then (case stepInterval (Interval recExp) currentDate of
              None \<Rightarrow> None
            | Some d \<Rightarrow>
                fastForward recExp today d
                  (if Occurrences recExp > 0 then occurrencesToGenerate - 1
                   else occurrencesToGenerate))
      else Some (currentDate, occurrencesToGenerate))"
  by pat_completeness auto
termination
proof (relation "measure (\<lambda>(recExp, today, currentDate, n).
          if Occurrences recExp > 0 then nat n else nat (day today - day currentDate + 1))")
  show "wf (measure (\<lambda>(recExp, today, currentDate, n).
          if Occurrences recExp > 0 then nat n else nat (day today - day currentDate + 1)))"
    by simp
next
  fix recExp :: RecurringExpense and today :: Time and currentDate :: ZonedTime
    and n :: int and d :: ZonedTime
  assume c: "Before currentDate today \<and> (Occurrences recExp = 0 \<or> 0 < n)"
    and s: "stepInterval (Interval recExp) currentDate = Some d"
  have "day currentDate \<le> day today" using c by (auto simp: Before_def)
  moreover have "day currentDate < day d" using s by (rule stepInterval_progress)
  ultimately show "((recExp, today, d, if 0 < Occurrences recExp then n - 1 else n),
         (recExp, today, currentDate, n))
        \<in> measure (\<lambda>(recExp, today, currentDate, n).
          if Occurrences recExp > 0 then nat n else nat (day today - day currentDate + 1))"
    using c by auto
qed

declare fastForward.simps [simp del]

text \<open>
  The emitting loop \<^verbatim>\<open>for range limit\<close>.  \<open>uuid k\<close> is the result of the \<open>k\<close>-th call
  of \<^verbatim>\<open>uuid.New().String()\<close>.  The record is appended before the interval is
  inspected, so an unknown interval still yields one record.  The date of an expense is
  only ever compared and tested for zero, so the record keeps the instant of the cursor.
\<close>

fun emitLoop ::
    "RecurringExpense \<Rightarrow> (nat \<Rightarrow> string) \<Rightarrow> nat \<Rightarrow> nat \<Rightarrow> ZonedTime \<Rightarrow> Expense list" where
  "emitLoop recExp uuid 0 k currentDate = []"
| "emitLoop recExp uuid (Suc n) k currentDate =
     \<lparr>ID = uuid k, RecurringID = rID recExp, Name = rName recExp, Tags = rTags recExp,
      Category = rCategory recExp, Amount = rAmount recExp, Currency = rCurrency recExp,
      Date = instant currentDate\<rparr>
     # (case stepInterval (Interval recExp) currentDate of
          None \<Rightarrow> []
        | Some d \<Rightarrow> emitLoop recExp uuid n (Suc k) d)"

text \<open>
  \<^verbatim>\<open>generateExpensesFromRecurring(recExp, fromToday)\<close>.  The reading of the clock
  (\<^verbatim>\<open>time.Now()\<close>) and the identifier generator are parameters.  A negative
  \<^verbatim>\<open>limit\<close> runs the \<^verbatim>\<open>range\<close> loop zero times.
\<close>

definition generateExpensesFromRecurring ::
    "RecurringExpense \<Rightarrow> bool \<Rightarrow> Time \<Rightarrow> (nat \<Rightarrow> string) \<Rightarrow> Expense list" where
  "generateExpensesFromRecurring recExp fromToday today uuid =
     (if fromToday
      then (case fastForward recExp today (StartDate recExp) (Occurrences recExp) of
              None \<Rightarrow> []
            | Some (currentDate, limit) \<Rightarrow> emitLoop recExp uuid (nat limit) 0 currentDate)
      else emitLoop recExp uuid (nat (Occurrences recExp)) 0 (StartDate recExp))"

text \<open>
  The cursor after \<open>k\<close> interval steps, and the interval tags the \<^verbatim>\<open>switch\<close> knows
  (the \<^verbatim>\<open>validIntervals\<close> table of \<^verbatim>\<open>RecurringExpense.Validate\<close>).
\<close>

fun advance :: "string \<Rightarrow> nat \<Rightarrow> ZonedTime \<Rightarrow> ZonedTime option" where
  "advance interval 0 t = Some t"
| "advance interval (Suc k) t =
     (case stepInterval interval t of None \<Rightarrow> None | Some d \<Rightarrow> advance interval k d)"

definition validInterval :: "string \<Rightarrow> bool" where
  "validInterval interval \<longleftrightarrow>
     interval = ''daily'' \<or> interval = ''weekly'' \<or> interval = ''monthly'' \<or> interval = ''yearly''"

subsection \<open>Expansion from the start date\<close>

lemma stepInterval_valid:
  "validInterval iv \<Longrightarrow> \<exists>d. stepInterval iv t = Some d"
  by (auto simp: validInterval_def stepInterval_def)

lemma advance_valid: "validInterval iv \<Longrightarrow> \<exists>d. advance iv k t = Some d"
proof (induction k arbitrary: t)
  case 0 show ?case by simp
next
  case (Suc k)
  obtain d where "stepInterval iv t = Some d" using stepInterval_valid[OF Suc.prems] by blast
  then show ?case using Suc.IH[OF Suc.prems, of d] by simp
qed

lemma emitLoop_length:
  "validInterval (Interval r) \<Longrightarrow> length (emitLoop r uuid n k t) = n"
proof (induction n arbitrary: k t)
  case 0 show ?case by simp
next
  case (Suc n)
  obtain d where "stepInterval (Interval r) t = Some d"
    using stepInterval_valid[OF Suc.prems] by blast
  then show ?case using Suc.IH[OF Suc.prems] by simp
qed

lemma emitLoop_dates:
  "validInterval (Interval r) \<Longrightarrow>
   map (\<lambda>e. Some (Date e)) (emitLoop r uuid n k t)
     = map (\<lambda>j. map_option instant (advance (Interval r) j t)) [0..<n]"
proof (induction n arbitrary: k t)
  case 0 show ?case by simp
next
  case (Suc n)
  obtain d where d: "stepInterval (Interval r) t = Some d"
    using stepInterval_valid[OF Suc.prems] by blast
  have "map (\<lambda>j. map_option instant (advance (Interval r) j t)) [0..<Suc n]
      = map_option instant (advance (Interval r) 0 t)
          # map (\<lambda>j. map_option instant (advance (Interval r) (Suc j) t)) [0..<n]"
    by (simp only: upt_conv_Cons[of 0 "Suc n"] list.map map_Suc_upt[symmetric] map_map o_def)
  then show ?case using Suc.IH[OF Suc.prems, of "Suc k" d] d by simp
qed

lemma map_Some_cancel:
  "map (\<lambda>x. Some (a x)) xs = map (\<lambda>y. Some (b y)) ys \<Longrightarrow> map a xs = map b ys"
  by (induction xs arbitrary: ys) auto

lemma advance_daily: "advance ''daily'' k t = Some (t\<lparr>day := day t + int k\<rparr>)"
  by (induction k arbitrary: t) (simp_all add: stepInterval_def AddDate_days)

lemma advance_weekly: "advance ''weekly'' k t = Some (t\<lparr>day := day t + 7 * int k\<rparr>)"
  by (induction k arbitrary: t) (simp_all add: stepInterval_def AddDate_days)

lemma advance_monthly: "advance ''monthly'' k t = Some ((AddDate 0 1 0 ^^ k) t)"
  by (induction k arbitrary: t) (simp_all add: stepInterval_def funpow_swap1)

lemma advance_yearly: "advance ''yearly'' k t = Some ((AddDate 1 0 0 ^^ k) t)"
  by (induction k arbitrary: t) (simp_all add: stepInterval_def funpow_swap1)

text \<open>
  Claim C1, as the code has it.  For a rule with a recognised interval and \<open>N \<ge> 2\<close>
  occurrences, \<^verbatim>\<open>generateExpensesFromRecurring(rule, false)\<close> returns exactly \<open>N\<close>
  records.  The first is dated at the start date and each further one at the date of the
  one before it stepped once by the interval, so the \<open>k\<close>-th record is dated at the start
  date stepped \<open>k\<close> times: one day per step for a daily rule, seven days for a weekly
  one, \<^verbatim>\<open>AddDate(0, 1, 0)\<close> for a monthly and \<^verbatim>\<open>AddDate(1, 0, 0)\<close> for a yearly one,
  each taken in the location of the start date.  For a daily and a weekly rule the dates
  are the start date plus \<open>k\<close> and plus \<open>7k\<close> days.  For a monthly and a yearly rule they
  are the start date plus \<open>k\<close> months and plus \<open>k\<close> years when the start date falls on
  one of the first 28 days of its month.
\<close>

theorem expand_full_run_by_steps:
  assumes "validInterval (Interval r)" and "2 \<le> Occurrences r"
  shows "length (generateExpensesFromRecurring r False today uuid) = nat (Occurrences r)
       \<and> map (\<lambda>e. Some (Date e)) (generateExpensesFromRecurring r False today uuid)
           = map (\<lambda>k. map_option instant (advance (Interval r) k (StartDate r)))
               [0..<nat (Occurrences r)]
       \<and> (Interval r = ''daily'' \<longrightarrow>
            map Date (generateExpensesFromRecurring r False today uuid)
              = map (\<lambda>k. \<lparr>day = day (StartDate r) + int k, nsec = nsec (StartDate r)\<rparr>)
                  [0..<nat (Occurrences r)])
       \<and> (Interval r = ''weekly'' \<longrightarrow>
            map Date (generateExpensesFromRecurring r False today uuid)
              = map (\<lambda>k. \<lparr>day = day (StartDate r) + 7 * int k, nsec = nsec (StartDate r)\<rparr>)
                  [0..<nat (Occurrences r)])
       \<and> (Interval r = ''monthly'' \<longrightarrow>
            map Date (generateExpensesFromRecurring r False today uuid)
              = map (\<lambda>k. instant ((AddDate 0 1 0 ^^ k) (StartDate r))) [0..<nat (Occurrences r)])
       \<and> (Interval r = ''yearly'' \<longrightarrow>
            map Date (generateExpensesFromRecurring r False today uuid)
              = map (\<lambda>k. instant ((AddDate 1 0 0 ^^ k) (StartDate r))) [0..<nat (Occurrences r)])
       \<and> (Interval r = ''monthly'' \<and> dayOfMonth (StartDate r) \<le> 28 \<longrightarrow>
            map Date (generateExpensesFromRecurring r False today uuid)
              = map (\<lambda>k. instant (AddDate 0 (int k) 0 (StartDate r))) [0..<nat (Occurrences r)])
       \<and> (Interval r = ''yearly'' \<and> dayOfMonth (StartDate r) \<le> 28 \<longrightarrow>
            map Date (generateExpensesFromRecurring r False today uuid)
              = map (\<lambda>k. instant (AddDate (int k) 0 0 (StartDate r))) [0..<nat (Occurrences r)])"
proof -
  let ?g = "generateExpensesFromRecurring r False today uuid"
  let ?N = "nat (Occurrences r)"
  have g: "?g = emitLoop r uuid ?N 0 (StartDate r)"
    by (simp add: generateExpensesFromRecurring_def)
  have len: "length ?g = ?N" using emitLoop_length[OF assms(1)] g by simp
  have dates: "map (\<lambda>e. Some (Date e)) ?g
      = map (\<lambda>k. map_option instant (advance (Interval r) k (StartDate r))) [0..<?N]"
    using emitLoop_dates[OF assms(1)] g by simp
  have conv: "map Date ?g = map f [0..<?N]"
    if "\<And>k. map_option instant (advance (Interval r) k (StartDate r)) = Some (f k)" for f
    by (rule map_Some_cancel) (use dates that in simp)
  have daily: "map Date ?g
      = map (\<lambda>k. \<lparr>day = day (StartDate r) + int k, nsec = nsec (StartDate r)\<rparr>) [0..<?N]"
    if "Interval r = ''daily''"
    by (rule conv) (simp add: that advance_daily instant_def)
  have weekly: "map Date ?g
      = map (\<lambda>k. \<lparr>day = day (StartDate r) + 7 * int k, nsec = nsec (StartDate r)\<rparr>) [0..<?N]"
    if "Interval r = ''weekly''"
    by (rule conv) (simp add: that advance_weekly instant_def)
  have monthly: "map Date ?g = map (\<lambda>k. instant ((AddDate 0 1 0 ^^ k) (StartDate r))) [0..<?N]"
    if "Interval r = ''monthly''"
    by (rule conv) (simp add: that advance_monthly)
  have yearly: "map Date ?g = map (\<lambda>k. instant ((AddDate 1 0 0 ^^ k) (StartDate r))) [0..<?N]"
    if "Interval r = ''yearly''"
    by (rule conv) (simp add: that advance_yearly)
  have monthly28: "map Date ?g = map (\<lambda>k. instant (AddDate 0 (int k) 0 (StartDate r))) [0..<?N]"
    if "Interval r = ''monthly''" "dayOfMonth (StartDate r) \<le> 28"
    using monthly[OF that(1)] by (simp add: AddDate_months_closed[OF that(2)])
  have yearly28: "map Date ?g = map (\<lambda>k. instant (AddDate (int k) 0 0 (StartDate r))) [0..<?N]"
    if "Interval r = ''yearly''" "dayOfMonth (StartDate r) \<le> 28"
    using yearly[OF that(1)] by (simp add: AddDate_years_closed[OF that(2)])
  show ?thesis
    using len dates daily weekly monthly yearly monthly28 yearly28 by blast
qed

text \<open>
  The scenario of the specification: a monthly rule starting on 2024-01-15 with three
  occurrences yields 2024-01-15, 2024-02-15 and 2024-03-15.
\<close>

definition jan15 :: RecurringExpense where
  "jan15 = \<lparr>rID = ''rule-1'', rName = ''Rent'', rAmount = - 950, rCurrency = ''usd'',
            rTags = [], rCategory = ''Rent'',
            StartDate = \<lparr>day = timeDate 2024 1 15, nsec = 0, loc = 0\<rparr>,
            Interval = ''monthly'', Occurrences = 3\<rparr>"

lemma jan15_days: "timeDate 2024 1 15 = 738899" "timeDate 2024 2 15 = 738930" "timeDate 2024 3 15 = 738959"
  by code_simp+

lemma jan15_civil: "civil 738899 = (2024, 1, 15)" "civil 738930 = (2024, 2, 15)"
  by code_simp+

lemma localDay_UTC: "localDay \<lparr>day = d, nsec = 0, loc = 0\<rparr> = d"
  by (simp add: localDay_def)

text \<open>
  A rule whose start date carries an offset: 31 January 2024, 23:00 at five hours west
  of UTC, which is 04:00 UTC on 1 February.  Its monthly step is taken from 31 January:
  the 31st day of February is 2 March, 23:00 at the same offset.
\<close>

definition jan31West :: RecurringExpense where
  "jan31West = \<lparr>rID = ''rule-4'', rName = ''Rent'', rAmount = - 950, rCurrency = ''usd'',
            rTags = [], rCategory = ''Rent'',
            StartDate = \<lparr>day = 738916, nsec = 14400000000000, loc = - 18000\<rparr>,
            Interval = ''monthly'', Occurrences = 3\<rparr>"

lemma jan31West_days:
  "civil 738915 = (2024, 1, 31)" "timeDate 2024 2 31 = 738946"
  "civil 738946 = (2024, 3, 2)" "timeDate 2024 4 2 = 738977"
  "civil 738977 = (2024, 4, 2)" "timeDate 2024 5 2 = 739007"
  by code_simp+

lemma jan31West_local:
  "localDay \<lparr>day = 738916, nsec = 14400000000000, loc = - 18000\<rparr> = 738915"
  "localDay \<lparr>day = 738947, nsec = 14400000000000, loc = - 18000\<rparr> = 738946"
  "localDay \<lparr>day = 738978, nsec = 14400000000000, loc = - 18000\<rparr> = 738977"
  by (simp_all add: localDay_def)

lemma jan31West_steps:
  "AddDate 0 1 0 \<lparr>day = 738916, nsec = 14400000000000, loc = - 18000\<rparr>
     = \<lparr>day = 738947, nsec = 14400000000000, loc = - 18000\<rparr>"
  "AddDate 0 1 0 \<lparr>day = 738947, nsec = 14400000000000, loc = - 18000\<rparr>
     = \<lparr>day = 738978, nsec = 14400000000000, loc = - 18000\<rparr>"
  "AddDate 0 1 0 \<lparr>day = 738978, nsec = 14400000000000, loc = - 18000\<rparr>
     = \<lparr>day = 739008, nsec = 14400000000000, loc = - 18000\<rparr>"
  by (simp_all add: AddDate_def jan31West_local jan31West_days)

theorem expand_full_run_by_steps_witness:
  "map Date (generateExpensesFromRecurring jan15 False \<lparr>day = 0, nsec = 0\<rparr> (\<lambda>k. ''id''))
     = [\<lparr>day = timeDate 2024 1 15, nsec = 0\<rparr>, \<lparr>day = timeDate 2024 2 15, nsec = 0\<rparr>,
        \<lparr>day = timeDate 2024 3 15, nsec = 0\<rparr>]
   \<and> map Date (generateExpensesFromRecurring jan31West False \<lparr>day = 0, nsec = 0\<rparr> (\<lambda>k. ''id''))
     = [\<lparr>day = 738916, nsec = 14400000000000\<rparr>, \<lparr>day = 738947, nsec = 14400000000000\<rparr>,
        \<lparr>day = 738978, nsec = 14400000000000\<rparr>]"
proof -
  have a: "map Date (generateExpensesFromRecurring jan15 False \<lparr>day = 0, nsec = 0\<rparr> (\<lambda>k. ''id''))
     = [\<lparr>day = timeDate 2024 1 15, nsec = 0\<rparr>, \<lparr>day = timeDate 2024 2 15, nsec = 0\<rparr>,
        \<lparr>day = timeDate 2024 3 15, nsec = 0\<rparr>]"
    using expand_full_run_by_steps[of jan15 "\<lparr>day = 0, nsec = 0\<rparr>" "\<lambda>k. ''id''"]
    by (simp add: jan15_def validInterval_def dayOfMonth_def jan15_days jan15_civil localDay_UTC
          AddDate_def instant_def numeral_3_eq_3 upt_rec)
  have b: "map Date (generateExpensesFromRecurring jan31West False \<lparr>day = 0, nsec = 0\<rparr> (\<lambda>k. ''id''))
     = [\<lparr>day = 738916, nsec = 14400000000000\<rparr>, \<lparr>day = 738947, nsec = 14400000000000\<rparr>,
        \<lparr>day = 738978, nsec = 14400000000000\<rparr>]"
    using expand_full_run_by_steps[of jan31West "\<lparr>day = 0, nsec = 0\<rparr>" "\<lambda>k. ''id''"]
    by (simp add: jan31West_def validInterval_def jan31West_steps instant_def numeral_3_eq_3
          numeral_2_eq_2 upt_rec)
  from a b show ?thesis by simp
qed

text \<open>
  The claim as stated fails at the end of a month.  A monthly rule starting on 31 January
  2024 with three occurrences yields 31 January, 2 March and 2 April: the second step
  starts from 2 March.  The start date plus two months is 31 March.
\<close>

definition jan31 :: RecurringExpense where
  "jan31 = \<lparr>rID = ''rule-5'', rName = ''Rent'', rAmount = - 950, rCurrency = ''usd'',
            rTags = [], rCategory = ''Rent'',
            StartDate = \<lparr>day = timeDate 2024 1 31, nsec = 0, loc = 0\<rparr>,
            Interval = ''monthly'', Occurrences = 3\<rparr>"

lemma month_end_days:
  "timeDate 2024 1 31 = 738915" "timeDate 2024 3 2 = 738946" "timeDate 2024 4 2 = 738977"
  "timeDate 2024 3 31 = 738975" "timeDate 2024 2 31 = 738946"
  by code_simp+

theorem expand_full_run_counterexample:
  "map Date (generateExpensesFromRecurring jan31 False \<lparr>day = 0, nsec = 0\<rparr> (\<lambda>k. ''id''))
     = [\<lparr>day = timeDate 2024 1 31, nsec = 0\<rparr>, \<lparr>day = timeDate 2024 3 2, nsec = 0\<rparr>,
        \<lparr>day = timeDate 2024 4 2, nsec = 0\<rparr>]
   \<and> instant (AddDate 0 2 0 (StartDate jan31)) = \<lparr>day = timeDate 2024 3 31, nsec = 0\<rparr>
   \<and> timeDate 2024 4 2 \<noteq> timeDate 2024 3 31"
  by (simp add: generateExpensesFromRecurring_def jan31_def stepInterval_def AddDate_def
        localDay_UTC month_end_days jan31West_days instant_def numeral_3_eq_3)

subsection \<open>Expansion from today\<close>

lemma advance_add:
  "advance iv (k + j) t = (case advance iv k t of None \<Rightarrow> None | Some c \<Rightarrow> advance iv j c)"
  by (induction k arbitrary: t) (auto split: option.splits)

lemma fastForward_spec:
  assumes "validInterval (Interval r)" "0 < Occurrences r" "0 \<le> n"
  shows "\<exists>k c. int k \<le> n \<and> fastForward r today cur n = Some (c, n - int k)
           \<and> advance (Interval r) k cur = Some c
           \<and> (\<forall>j<k. \<exists>cj. advance (Interval r) j cur = Some cj \<and> Before cj today)
           \<and> (int k < n \<longrightarrow> \<not> Before c today)"
  using assms
proof (induction r today cur n rule: fastForward.induct)
  case (1 r today cur n)
  show ?case
  proof (cases "Before cur today \<and> 0 < n")
    case False
    then have "fastForward r today cur n = Some (cur, n)"
      using "1.prems" by (subst fastForward.simps) auto
    then show ?thesis using False "1.prems"
      by (intro exI[of _ 0] exI[of _ cur]) auto
  next
    case True
    obtain d where d: "stepInterval (Interval r) cur = Some d"
      using stepInterval_valid[OF "1.prems"(1)] by blast
    have ff: "fastForward r today cur n = fastForward r today d (n - 1)"
      using True d "1.prems" by (subst fastForward.simps) auto
    have "\<exists>k c. int k \<le> n - 1 \<and> fastForward r today d (n - 1) = Some (c, n - 1 - int k)
           \<and> advance (Interval r) k d = Some c
           \<and> (\<forall>j<k. \<exists>cj. advance (Interval r) j d = Some cj \<and> Before cj today)
           \<and> (int k < n - 1 \<longrightarrow> \<not> Before c today)"
      using "1.IH"[OF _ d] True "1.prems" by auto
    then obtain k c where k: "int k \<le> n - 1" "fastForward r today d (n - 1) = Some (c, n - 1 - int k)"
        "advance (Interval r) k d = Some c"
        "\<forall>j<k. \<exists>cj. advance (Interval r) j d = Some cj \<and> Before cj today"
        "int k < n - 1 \<longrightarrow> \<not> Before c today"
      by blast
    have all: "\<forall>j<Suc k. \<exists>cj. advance (Interval r) j cur = Some cj \<and> Before cj today"
    proof (intro allI impI)
      fix j assume "j < Suc k"
      then show "\<exists>cj. advance (Interval r) j cur = Some cj \<and> Before cj today"
        using k(4) True d by (cases j) auto
    qed
    show ?thesis
      using k(1,2,3,5) ff d all
      by (intro exI[of _ "Suc k"] exI[of _ c]) (auto simp: algebra_simps)
  qed
qed

lemma emitLoop_not_earlier:
  "e \<in> set (emitLoop r uuid n k cur) \<Longrightarrow> Date e = instant cur \<or> day cur < day (Date e)"
proof (induction n arbitrary: k cur)
  case 0 then show ?case by simp
next
  case (Suc n)
  let ?x = "\<lparr>ID = uuid k, RecurringID = rID r, Name = rName r, Tags = rTags r,
      Category = rCategory r, Amount = rAmount r, Currency = rCurrency r, Date = instant cur\<rparr>"
  show ?case
  proof (cases "e = ?x")
    case True
    then have "Date e = instant cur" by simp
    then show ?thesis by simp
  next
    case False
    show ?thesis
    proof (cases "stepInterval (Interval r) cur")
      case None
      then show ?thesis using Suc.prems False by simp
    next
      case (Some d)
      then have lt: "day cur < day d" by (rule stepInterval_progress)
      have "e \<in> set (emitLoop r uuid n (Suc k) d)" using Suc.prems False Some by simp
      then have "Date e = instant d \<or> day d < day (Date e)" by (rule Suc.IH)
      then show ?thesis using lt by (auto simp: instant_def)
    qed
  qed
qed

lemma emitLoop_not_before:
  assumes "\<not> Before cur today" "e \<in> set (emitLoop r uuid n k cur)"
  shows "\<not> Before (Date e) today"
proof -
  have "Date e = instant cur \<or> day cur < day (Date e)" using assms(2) by (rule emitLoop_not_earlier)
  then show ?thesis using assms(1) by (auto simp: Before_def instant_def)
qed

text \<open>
  Claim C3, as the code has it.  With \<^verbatim>\<open>fromToday\<close> set, the fast-forward loop takes
  \<open>skipped\<close> interval steps: every cursor before the \<open>skipped\<close>-th is strictly before the
  call time, and the loop stops either because the budget \<open>N\<close> is used up or because the
  cursor is no longer before the call time.  The function then emits
  \<open>max 0 (N - skipped)\<close> records, dated at the cursors \<open>skipped, skipped + 1, \<dots>\<close>, and
  none of them is dated strictly before the call time.  A record dated exactly at the call
  time is emitted: the loop tests \<^verbatim>\<open>currentDate.Before(today)\<close>.
\<close>

theorem expand_from_today:
  assumes "validInterval (Interval r)" and "2 \<le> Occurrences r"
  shows "\<exists>skipped.
           int skipped \<le> Occurrences r
         \<and> (\<forall>j<skipped. \<exists>c. advance (Interval r) j (StartDate r) = Some c \<and> Before c today)
         \<and> (int skipped < Occurrences r \<longrightarrow>
               (\<exists>c. advance (Interval r) skipped (StartDate r) = Some c \<and> \<not> Before c today))
         \<and> int (length (generateExpensesFromRecurring r True today uuid))
               = max 0 (Occurrences r - int skipped)
         \<and> map (\<lambda>e. Some (Date e)) (generateExpensesFromRecurring r True today uuid)
               = map (\<lambda>j. map_option instant (advance (Interval r) (skipped + j) (StartDate r)))
                   [0..<nat (Occurrences r) - skipped]
         \<and> (\<forall>e \<in> set (generateExpensesFromRecurring r True today uuid).
               \<not> Before (Date e) today)"
proof -
  let ?N = "Occurrences r"
  from fastForward_spec[of r ?N today "StartDate r"] assms
  obtain k c where k: "int k \<le> ?N" "fastForward r today (StartDate r) ?N = Some (c, ?N - int k)"
      "advance (Interval r) k (StartDate r) = Some c"
      "\<forall>j<k. \<exists>cj. advance (Interval r) j (StartDate r) = Some cj \<and> Before cj today"
      "int k < ?N \<longrightarrow> \<not> Before c today"
    by auto
  have g: "generateExpensesFromRecurring r True today uuid = emitLoop r uuid (nat ?N - k) 0 c"
    using k(1,2) by (simp add: generateExpensesFromRecurring_def nat_diff_distrib)
  have len: "int (length (generateExpensesFromRecurring r True today uuid)) = max 0 (?N - int k)"
    using g k(1) emitLoop_length[OF assms(1)] by simp
  have dates: "map (\<lambda>e. Some (Date e)) (generateExpensesFromRecurring r True today uuid)
               = map (\<lambda>j. map_option instant (advance (Interval r) (k + j) (StartDate r)))
                   [0..<nat ?N - k]"
    using g emitLoop_dates[OF assms(1), of uuid "nat ?N - k" 0 c] k(3)
    by (simp add: advance_add)
  have nb: "\<forall>e \<in> set (generateExpensesFromRecurring r True today uuid). \<not> Before (Date e) today"
  proof (cases "int k < ?N")
    case True
    then have nbc: "\<not> Before c today" using k(5) by simp
    show ?thesis unfolding g
    proof
      fix e assume "e \<in> set (emitLoop r uuid (nat ?N - k) 0 c)"
      with nbc show "\<not> Before (Date e) today" by (rule emitLoop_not_before)
    qed
  next
    case False
    then have "nat ?N - k = 0" by simp
    then show ?thesis using g by simp
  qed
  show ?thesis
    using k(1,3,4,5) len dates nb by (intro exI[of _ k]) auto
qed

text \<open>
  The rule \<open>jan31West\<close> expanded at 00:00 UTC on 2 March 2024.  The start date (04:00 UTC
  on 1 February) is before the call time and is skipped; the cursor after one step
  (2 March, 23:00 at five hours west, 04:00 UTC on 3 March) is not.  Two records are
  emitted.
\<close>

lemma jan31West_from_march2:
  "generateExpensesFromRecurring jan31West True \<lparr>day = 738946, nsec = 0\<rparr> (\<lambda>k. ''id'')
     = [\<lparr>ID = ''id'', RecurringID = ''rule-4'', Name = ''Rent'', Tags = [], Category = ''Rent'',
         Amount = - 950, Currency = ''usd'', Date = \<lparr>day = 738947, nsec = 14400000000000\<rparr>\<rparr>,
        \<lparr>ID = ''id'', RecurringID = ''rule-4'', Name = ''Rent'', Tags = [], Category = ''Rent'',
         Amount = - 950, Currency = ''usd'', Date = \<lparr>day = 738978, nsec = 14400000000000\<rparr>\<rparr>]"
  by (simp add: generateExpensesFromRecurring_def jan31West_def fastForward.simps Before_def
        stepInterval_def jan31West_steps instant_def numeral_2_eq_2)

theorem expand_from_today_witness:
  "\<exists>skipped.
           int skipped \<le> 3
         \<and> (\<forall>j<skipped. \<exists>c. advance ''monthly'' j
                  \<lparr>day = 738916, nsec = 14400000000000, loc = - 18000\<rparr> = Some c
                \<and> Before c \<lparr>day = 738946, nsec = 0\<rparr>)
         \<and> (int skipped < 3 \<longrightarrow>
               (\<exists>c. advance ''monthly'' skipped
                  \<lparr>day = 738916, nsec = 14400000000000, loc = - 18000\<rparr> = Some c
                  \<and> \<not> Before c \<lparr>day = 738946, nsec = 0\<rparr>))
         \<and> int (length (generateExpensesFromRecurring jan31West True
                 \<lparr>day = 738946, nsec = 0\<rparr> (\<lambda>k. ''id'')))
               = max 0 (3 - int skipped)
         \<and> map (\<lambda>e. Some (Date e)) (generateExpensesFromRecurring jan31West True
                 \<lparr>day = 738946, nsec = 0\<rparr> (\<lambda>k. ''id''))
               = map (\<lambda>j. map_option instant (advance ''monthly'' (skipped + j)
                       \<lparr>day = 738916, nsec = 14400000000000, loc = - 18000\<rparr>))
                   [0..<3 - skipped]
         \<and> (\<forall>e \<in> set (generateExpensesFromRecurring jan31West True
                 \<lparr>day = 738946, nsec = 0\<rparr> (\<lambda>k. ''id'')).
               \<not> Before (Date e) \<lparr>day = 738946, nsec = 0\<rparr>)"
  using expand_from_today[of jan31West "\<lparr>day = 738946, nsec = 0\<rparr>" "\<lambda>k. ''id''"]
  by (simp add: jan31West_def validInterval_def)

text \<open>
  The claim as stated (no record dated at or before the call time) fails for a rule whose
  start date is the call time itself: the first record is dated exactly then.
\<close>

definition startsNow :: RecurringExpense where
  "startsNow = \<lparr>rID = ''rule-2'', rName = ''Coffee'', rAmount = - 3, rCurrency = ''usd'',
            rTags = [], rCategory = ''Food'',
            StartDate = \<lparr>day = 738899, nsec = 43200, loc = 0\<rparr>,
            Interval = ''daily'', Occurrences = 2\<rparr>"

theorem expand_from_today_counterexample:
  "map Date (generateExpensesFromRecurring startsNow True \<lparr>day = 738899, nsec = 43200\<rparr> (\<lambda>k. ''id''))
     = [\<lparr>day = 738899, nsec = 43200\<rparr>, \<lparr>day = 738900, nsec = 43200\<rparr>]"
  by (simp add: generateExpensesFromRecurring_def startsNow_def fastForward.simps Before_def
        stepInterval_def AddDate_days instant_def numeral_2_eq_2)

section \<open>What both stores share\<close>

definition defaultCategories :: "string list" where
  "defaultCategories = [''Food'', ''Groceries'', ''Travel'', ''Rent'', ''Utilities'',
     ''Entertainment'', ''Healthcare'', ''Shopping'', ''Miscellaneous'', ''Income'']"


text \<open>\<^verbatim>\<open>Config.SetBaseConfig\<close>.\<close>

definition SetBaseConfig :: Config where
  "SetBaseConfig = \<lparr>Categories = defaultCategories, cCurrency = ''usd'', cStartDate = 1,
     RecurringExpenses = []\<rparr>"

text \<open>Reading a Go \<^verbatim>\<open>map[string]string\<close>: a missing key yields the empty string.\<close>

definition mapGet :: "(string \<rightharpoonup> string) \<Rightarrow> string \<Rightarrow> string" where
  "mapGet m k = (case m k of None \<Rightarrow> [] | Some v \<Rightarrow> v)"

text \<open>\<^verbatim>\<open>fmt.Sprintf("%d", n)\<close>.\<close>

fun showNat :: "nat \<Rightarrow> string" where
  "showNat n = (if n < 10 then [char_of (48 + n)]
                else showNat (n div 10) @ [char_of (48 + n mod 10)])"

declare showNat.simps [simp del]

definition showInt :: "int \<Rightarrow> string" where
  "showInt i = (if i < 0 then CHR ''-'' # showNat (nat (- i)) else showNat (nat i))"

text \<open>
  \<^verbatim>\<open>RecurringExpense.Validate\<close>.  The receiver is a pointer: the sanitised name and the
  cleaned tags are written back, so the method returns the rule as it leaves it.
  \<^verbatim>\<open>SanitizeString\<close> applies two regular expressions over Unicode character classes
  (tables of the Go runtime); it is a parameter here.
\<close>

definition Validate ::
    "(string \<Rightarrow> string) \<Rightarrow> RecurringExpense \<Rightarrow> error option \<times> RecurringExpense" where
  "Validate SanitizeString e0 =
     (let e1 = e0\<lparr>rName := SanitizeString (rName e0)\<rparr> in
      if rName e1 = [] then (Some Invalid, e1)
      else if rCategory e1 = [] then (Some Invalid, e1)
      else let e2 = (if length (rTags e1) > 0
                     then e1\<lparr>rTags := filter (\<lambda>t. t \<noteq> []) (map SanitizeString (rTags e1))\<rparr>
                     else e1) in
        if Occurrences e2 < 2 then (Some Invalid, e2)
        else if IsZero (StartDate e2) then (Some Invalid, e2)
        else if \<not> validInterval (Interval e2) then (Some Invalid, e2)
        else (None, e2))"

text \<open>
  The handler \<^verbatim>\<open>AddRecurringExpense\<close> of the API layer, after the request body is
  decoded: validate, then call the store through the \<^verbatim>\<open>Storage\<close> interface (the
  parameter \<open>add\<close>).  The result is the HTTP status and the store.
\<close>

definition Handler_AddRecurringExpense ::
    "(string \<Rightarrow> string) \<Rightarrow> (RecurringExpense \<Rightarrow> 's \<Rightarrow> error option \<times> 's)
       \<Rightarrow> RecurringExpense \<Rightarrow> 's \<Rightarrow> nat \<times> 's" where
  "Handler_AddRecurringExpense SanitizeString add re store =
     (case Validate SanitizeString re of
        (Some err, _) \<Rightarrow> (400, store)
      | (None, re') \<Rightarrow>
          (case add re' store of
             (Some err, store') \<Rightarrow> (500, store')
           | (None, store') \<Rightarrow> (201, store')))"

section \<open>File-backed store\<close>

text \<open>
  The state of a \<^verbatim>\<open>jsonStore\<close>: the two documents on disk and the \<^verbatim>\<open>defaults\<close> map.
  Encoding a document as JSON and decoding it again is taken to give the document back.
  Whether each file access of an operation succeeds is an input (\<open>fileIO\<close>); a failed
  write is taken to leave the document as it was.  The mutex is not part of the
  sequential model.
\<close>

record jsonStore =
  configDoc :: Config
  expensesDoc :: "Expense list"
  defaults :: "string \<rightharpoonup> string"

record fileIO =
  readConfigOk :: bool
  writeConfigOk :: bool
  readExpensesOk :: bool
  writeExpensesOk :: bool

definition readExpensesFile :: "fileIO \<Rightarrow> jsonStore \<Rightarrow> error + Expense list" where
  "readExpensesFile io s = (if readExpensesOk io then Inr (expensesDoc s) else Inl SubstrateFailure)"

definition writeExpensesFile :: "fileIO \<Rightarrow> Expense list \<Rightarrow> jsonStore \<Rightarrow> error option \<times> jsonStore" where
  "writeExpensesFile io data s =
     (if writeExpensesOk io then (None, s\<lparr>expensesDoc := data\<rparr>) else (Some SubstrateFailure, s))"

definition readConfigFile :: "fileIO \<Rightarrow> jsonStore \<Rightarrow> error + Config" where
  "readConfigFile io s = (if readConfigOk io then Inr (configDoc s) else Inl SubstrateFailure)"

definition writeConfigFile :: "fileIO \<Rightarrow> Config \<Rightarrow> jsonStore \<Rightarrow> error option \<times> jsonStore" where
  "writeConfigFile io data s =
     (if writeConfigOk io then (None, s\<lparr>configDoc := data\<rparr>) else (Some SubstrateFailure, s))"

text \<open>\<^verbatim>\<open>InitializeJsonStore\<close> on an empty directory.\<close>

definition InitializeJsonStore :: jsonStore where
  "InitializeJsonStore = \<lparr>configDoc = SetBaseConfig, expensesDoc = [], defaults = Map.empty\<rparr>"

definition jsonStore_GetConfig :: "fileIO \<Rightarrow> jsonStore \<Rightarrow> error + Config" where
  "jsonStore_GetConfig io s = readConfigFile io s"

definition jsonStore_UpdateCategories ::
    "fileIO \<Rightarrow> string list \<Rightarrow> jsonStore \<Rightarrow> error option \<times> jsonStore" where
  "jsonStore_UpdateCategories io categories s =
     (case readConfigFile io s of
        Inl err \<Rightarrow> (Some err, s)
      | Inr data \<Rightarrow> writeConfigFile io (data\<lparr>Categories := categories\<rparr>) s)"



definition jsonStore_GetRecurringExpenses :: "fileIO \<Rightarrow> jsonStore \<Rightarrow> error + RecurringExpense list" where
  "jsonStore_GetRecurringExpenses io s =
     (case jsonStore_GetConfig io s of Inl err \<Rightarrow> Inl err | Inr config \<Rightarrow> Inr (RecurringExpenses config))"

definition jsonStore_GetRecurringExpense :: "fileIO \<Rightarrow> string \<Rightarrow> jsonStore \<Rightarrow> error + RecurringExpense" where
  "jsonStore_GetRecurringExpense io ident s =
     (case jsonStore_GetRecurringExpenses io s of
        Inl err \<Rightarrow> Inl err
      | Inr recurringExpenses \<Rightarrow>
          (case find (\<lambda>r. rID r = ident) recurringExpenses of
             Some r \<Rightarrow> Inr r
           | None \<Rightarrow> Inl NotFound))"

text \<open>
  \<^verbatim>\<open>AddMultipleExpenses\<close> takes no lock of its own; \<^verbatim>\<open>AddRecurringExpense\<close> calls it
  while holding the write lock.
\<close>

definition jsonStore_AddMultipleExpenses ::
    "fileIO \<Rightarrow> Expense list \<Rightarrow> jsonStore \<Rightarrow> error option \<times> jsonStore" where
  "jsonStore_AddMultipleExpenses io expensesToAdd s =
     (if length expensesToAdd = 0 then (None, s)
      else case readExpensesFile io s of
        Inl err \<Rightarrow> (Some err, s)
      | Inr data \<Rightarrow> writeExpensesFile io (data @ expensesToAdd) s)"

text \<open>
  The defaults every \<^verbatim>\<open>AddRecurringExpense\<close> and \<^verbatim>\<open>UpdateRecurringExpense\<close> assigns.
  \<open>uuid 0\<close> is consumed only when the rule has no identifier; the rest of the supply
  goes to the expansion.
\<close>

definition assignRuleID ::
    "(nat \<Rightarrow> string) \<Rightarrow> RecurringExpense \<Rightarrow> RecurringExpense \<times> (nat \<Rightarrow> string)" where
  "assignRuleID uuid re =
     (if rID re = [] then (re\<lparr>rID := uuid 0\<rparr>, \<lambda>k. uuid (Suc k)) else (re, uuid))"

definition assignRuleCurrency :: "(string \<rightharpoonup> string) \<Rightarrow> RecurringExpense \<Rightarrow> RecurringExpense" where
  "assignRuleCurrency dflt re =
     (if rCurrency re = [] then re\<lparr>rCurrency := mapGet dflt ''currency''\<rparr> else re)"

definition jsonStore_AddRecurringExpense ::
    "fileIO \<Rightarrow> (nat \<Rightarrow> string) \<Rightarrow> Time \<Rightarrow> RecurringExpense \<Rightarrow> jsonStore
       \<Rightarrow> error option \<times> jsonStore" where
  "jsonStore_AddRecurringExpense io uuid now recurringExpense s =
     (case readConfigFile io s of
        Inl err \<Rightarrow> (Some err, s)
      | Inr config \<Rightarrow>
          (case assignRuleID uuid recurringExpense of (re1, uuid') \<Rightarrow>
             let re2 = assignRuleCurrency (defaults s) re1;
                 config' = config\<lparr>RecurringExpenses := RecurringExpenses config @ [re2]\<rparr>
             in case writeConfigFile io config' s of
                  (Some err, s') \<Rightarrow> (Some err, s')
                | (None, s') \<Rightarrow>
                    jsonStore_AddMultipleExpenses io
                      (generateExpensesFromRecurring re2 False now uuid') s'))"

text \<open>
  The loop both \<^verbatim>\<open>RemoveRecurringExpense\<close> and \<^verbatim>\<open>UpdateRecurringExpense\<close> run over the
  expenses: a record of another rule is kept; a record of this rule is kept only when
  the flag is off and its date is not after \<^verbatim>\<open>today\<close>.
\<close>

definition keepInstance :: "string \<Rightarrow> bool \<Rightarrow> Time \<Rightarrow> Expense \<Rightarrow> bool" where
  "keepInstance ident all today ex \<longleftrightarrow>
     RecurringID ex \<noteq> ident \<or> (\<not> all \<and> \<not> After (Date ex) today)"

definition jsonStore_RemoveRecurringExpense ::
    "fileIO \<Rightarrow> Time \<Rightarrow> string \<Rightarrow> bool \<Rightarrow> jsonStore \<Rightarrow> error option \<times> jsonStore" where
  "jsonStore_RemoveRecurringExpense io today ident removeAll' s =
     (case readConfigFile io s of
        Inl err \<Rightarrow> (Some err, s)
      | Inr config \<Rightarrow>
          let found = (\<exists>r \<in> set (RecurringExpenses config). rID r = ident);
              updatedRecurringExpenses = filter (\<lambda>r. rID r \<noteq> ident) (RecurringExpenses config)
          in if \<not> found then (Some NotFound, s)
             else case readExpensesFile io s of
               Inl err \<Rightarrow> (Some err, s)
             | Inr expensesData \<Rightarrow>
                 (case writeExpensesFile io (filter (keepInstance ident removeAll' today) expensesData) s of
                    (Some err, s') \<Rightarrow> (Some err, s')
                  | (None, s') \<Rightarrow>
                      writeConfigFile io
                        (config\<lparr>RecurringExpenses := updatedRecurringExpenses\<rparr>) s'))"

text \<open>Replace the first rule with the identifier \<open>ident\<close>, as the loop with \<^verbatim>\<open>break\<close> does.\<close>

fun replaceRule :: "string \<Rightarrow> RecurringExpense \<Rightarrow> RecurringExpense list \<Rightarrow> RecurringExpense list" where
  "replaceRule ident new [] = []"
| "replaceRule ident new (r # rs) = (if rID r = ident then new # rs else r # replaceRule ident new rs)"

text \<open>
  \<^verbatim>\<open>UpdateRecurringExpense\<close> reads the clock twice: \<open>today\<close> for the partition of the
  stored records and \<open>genNow\<close> inside \<^verbatim>\<open>generateExpensesFromRecurring\<close>.
\<close>

definition jsonStore_UpdateRecurringExpense ::
    "fileIO \<Rightarrow> (nat \<Rightarrow> string) \<Rightarrow> Time \<Rightarrow> Time \<Rightarrow> string \<Rightarrow> RecurringExpense \<Rightarrow> bool
       \<Rightarrow> jsonStore \<Rightarrow> error option \<times> jsonStore" where
  "jsonStore_UpdateRecurringExpense io uuid today genNow ident recurringExpense updateAll s =
     (case readConfigFile io s of
        Inl err \<Rightarrow> (Some err, s)
      | Inr config \<Rightarrow>
          let found = (\<exists>r \<in> set (RecurringExpenses config). rID r = ident);
              re = assignRuleCurrency (defaults s) (recurringExpense\<lparr>rID := ident\<rparr>);
              config' = config\<lparr>RecurringExpenses := replaceRule ident re (RecurringExpenses config)\<rparr>
          in if \<not> found then (Some NotFound, s)
             else case readExpensesFile io s of
               Inl err \<Rightarrow> (Some err, s)
             | Inr expensesData \<Rightarrow>
                 (case writeExpensesFile io
                         (filter (keepInstance ident updateAll today) expensesData
                            @ generateExpensesFromRecurring re (\<not> updateAll) genNow uuid) s of
                    (Some err, s') \<Rightarrow> (Some err, s')
                  | (None, s') \<Rightarrow> writeConfigFile io config' s'))"

definition jsonStore_GetAllExpenses :: "fileIO \<Rightarrow> jsonStore \<Rightarrow> error + Expense list" where
  "jsonStore_GetAllExpenses io s = readExpensesFile io s"

definition jsonStore_GetExpense :: "fileIO \<Rightarrow> string \<Rightarrow> jsonStore \<Rightarrow> error + Expense" where
  "jsonStore_GetExpense io ident s =
     (case readExpensesFile io s of
        Inl err \<Rightarrow> Inl err
      | Inr data \<Rightarrow>
          (case find (\<lambda>ex. ID ex = ident) data of
             Some ex \<Rightarrow> Inr ex
           | None \<Rightarrow> Inl NotFound))"

text \<open>
  The defaults of \<^verbatim>\<open>AddExpense\<close>; \<open>newID\<close> and \<open>now\<close> are what \<^verbatim>\<open>uuid.New()\<close> and
  \<^verbatim>\<open>time.Now()\<close> return if called.
\<close>

definition assignExpenseDefaults :: "(string \<rightharpoonup> string) \<Rightarrow> string \<Rightarrow> Time \<Rightarrow> Expense \<Rightarrow> Expense" where
  "assignExpenseDefaults dflt newID now expense =
     (let e1 = (if ID expense = [] then expense\<lparr>ID := newID\<rparr> else expense);
          e2 = (if Currency e1 = [] then e1\<lparr>Currency := mapGet dflt ''currency''\<rparr> else e1)
      in if IsZero (Date e2) then e2\<lparr>Date := now\<rparr> else e2)"

definition jsonStore_AddExpense ::
    "fileIO \<Rightarrow> string \<Rightarrow> Time \<Rightarrow> Expense \<Rightarrow> jsonStore \<Rightarrow> error option \<times> jsonStore" where
  "jsonStore_AddExpense io newID now expense s =
     (case readExpensesFile io s of
        Inl err \<Rightarrow> (Some err, s)
      | Inr data \<Rightarrow>
          writeExpensesFile io (data @ [assignExpenseDefaults (defaults s) newID now expense]) s)"

text \<open>
  \<^verbatim>\<open>RemoveExpense\<close> allocates \<^verbatim>\<open>make([]Expense, 0, len(data.Expenses)-1)\<close>: on an
  empty document the capacity is negative and the Go runtime panics.
\<close>

definition jsonStore_RemoveExpense ::
    "fileIO \<Rightarrow> string \<Rightarrow> jsonStore \<Rightarrow> error option \<times> jsonStore" where
  "jsonStore_RemoveExpense io ident s =
     (case readExpensesFile io s of
        Inl err \<Rightarrow> (Some err, s)
      | Inr data \<Rightarrow>
          if length data = 0 then (Some Panic, s)
          else if \<not> (\<exists>ex \<in> set data. ID ex = ident) then (Some NotFound, s)
          else writeExpensesFile io (filter (\<lambda>ex. ID ex \<noteq> ident) data) s)"

definition jsonStore_RemoveMultipleExpenses ::
    "fileIO \<Rightarrow> string list \<Rightarrow> jsonStore \<Rightarrow> error option \<times> jsonStore" where
  "jsonStore_RemoveMultipleExpenses io ids s =
     (if length ids = 0 then (None, s)
      else case readExpensesFile io s of
        Inl err \<Rightarrow> (Some err, s)
      | Inr data \<Rightarrow>
          let newExpenses = filter (\<lambda>ex. ID ex \<notin> set ids) data
          in if length newExpenses = length data then (None, s)
             else writeExpensesFile io newExpenses s)"

text \<open>Overwrite the first record with the identifier (the loop ends with \<^verbatim>\<open>break\<close>).\<close>

fun replaceExpense :: "string \<Rightarrow> Expense \<Rightarrow> Expense list \<Rightarrow> Expense list" where
  "replaceExpense ident new [] = []"
| "replaceExpense ident new (ex # rest) =
     (if ID ex = ident then new # rest else ex # replaceExpense ident new rest)"

definition jsonStore_UpdateExpense ::
    "fileIO \<Rightarrow> string \<Rightarrow> Expense \<Rightarrow> jsonStore \<Rightarrow> error option \<times> jsonStore" where
  "jsonStore_UpdateExpense io ident expense s =
     (case readExpensesFile io s of
        Inl err \<Rightarrow> (Some err, s)
      | Inr data \<Rightarrow>
          let e1 = expense\<lparr>ID := ident\<rparr>;
              e2 = (if Currency e1 = [] then e1\<lparr>Currency := mapGet (defaults s) ''currency''\<rparr> else e1)
          in if \<not> (\<exists>ex \<in> set data. ID ex = ident) then (Some NotFound, s)
             else writeExpensesFile io (replaceExpense ident e2 data) s)"

section \<open>Relational store\<close>

text \<open>
  The three tables.  A row of \<^verbatim>\<open>expenses\<close> has the columns of an \<^verbatim>\<open>Expense\<close> and a row
  of \<^verbatim>\<open>recurring_expenses\<close> those of a \<^verbatim>\<open>RecurringExpense\<close>, so the records stand for the
  rows; \<^verbatim>\<open>config\<close> has at most the one row \<^verbatim>\<open>'default'\<close>.  The primary keys are
  modelled; column widths and the precision of \<^verbatim>\<open>NUMERIC(10, 2)\<close> and \<^verbatim>\<open>TIMESTAMPTZ\<close>
  are not.  A \<^verbatim>\<open>TIMESTAMPTZ\<close> column keeps the instant of a time and not its location:
  the column value of a start date is its instant, and \<^verbatim>\<open>Scan\<close> hands it back in the
  location of the session, taken to be UTC.  Whether the statements of an operation
  succeed is an input (\<open>dbIO\<close>); a transaction that does not commit leaves the tables as
  they were.
\<close>

record databaseStore =
  expenses :: "Expense list"
  recurring_expenses :: "RecurringExpense list"
  config :: "(string list \<times> string \<times> int) option"
  dbDefaults :: "string \<rightharpoonup> string"

record dbIO =
  beginOk :: bool
  queryOk :: bool
  execOk :: bool
  commitOk :: bool

text \<open>\<^verbatim>\<open>InitializePostgresStore\<close> after \<^verbatim>\<open>createTables\<close> on an empty database.\<close>

definition InitializePostgresStore :: databaseStore where
  "InitializePostgresStore =
     \<lparr>expenses = [], recurring_expenses = [], config = None, dbDefaults = Map.empty\<rparr>"

subsection \<open>Rows as the driver hands them to \<^verbatim>\<open>Scan\<close>\<close>

text \<open>
  A tag list is stored as its JSON text; marshalling and unmarshalling it is taken to
  give the list back, so the column value carries the list.
\<close>

datatype sqlval =
    SqlNull
  | SqlText string
  | SqlNumeric real
  | SqlInteger int
  | SqlTimestamp Time
  | SqlTags "string list"

fun asText :: "sqlval \<Rightarrow> string option" where
  "asText (SqlText s) = Some s"
| "asText _ = None"

fun asNumeric :: "sqlval \<Rightarrow> real option" where
  "asNumeric (SqlNumeric a) = Some a"
| "asNumeric _ = None"

fun asInteger :: "sqlval \<Rightarrow> int option" where
  "asInteger (SqlInteger i) = Some i"
| "asInteger _ = None"

fun asTimestamp :: "sqlval \<Rightarrow> Time option" where
  "asTimestamp (SqlTimestamp t) = Some t"
| "asTimestamp _ = None"

text \<open>A \<^verbatim>\<open>sql.NullString\<close> destination: \<^verbatim>\<open>NULL\<close> leaves the field at its zero value.\<close>

fun nullString :: "sqlval \<Rightarrow> string" where
  "nullString (SqlText s) = s"
| "nullString _ = []"

fun nullTags :: "sqlval \<Rightarrow> string list" where
  "nullTags (SqlTags ts) = ts"
| "nullTags _ = []"

definition expenseColumn :: "Expense \<Rightarrow> string \<Rightarrow> sqlval" where
  "expenseColumn e c =
     (if c = ''id'' then SqlText (ID e)
      else if c = ''recurring_id'' then SqlText (RecurringID e)
      else if c = ''name'' then SqlText (Name e)
      else if c = ''category'' then SqlText (Category e)
      else if c = ''amount'' then SqlNumeric (Amount e)
      else if c = ''currency'' then SqlText (Currency e)
      else if c = ''date'' then SqlTimestamp (Date e)
      else if c = ''tags'' then SqlTags (Tags e)
      else SqlNull)"

definition recurringColumn :: "RecurringExpense \<Rightarrow> string \<Rightarrow> sqlval" where
  "recurringColumn r c =
     (if c = ''id'' then SqlText (rID r)
      else if c = ''name'' then SqlText (rName r)
      else if c = ''amount'' then SqlNumeric (rAmount r)
      else if c = ''currency'' then SqlText (rCurrency r)
      else if c = ''category'' then SqlText (rCategory r)
      else if c = ''start_date'' then SqlTimestamp (instant (StartDate r))
      else if c = ''interval'' then SqlText (Interval r)
      else if c = ''occurrences'' then SqlInteger (Occurrences r)
      else if c = ''tags'' then SqlTags (rTags r)
      else SqlNull)"

text \<open>
  \<^verbatim>\<open>scanExpense\<close> passes seven destinations to \<^verbatim>\<open>Scan\<close>: id, recurring id, name,
  category, amount, date, tags.  \<^verbatim>\<open>Scan\<close> first compares the number of columns with the
  number of destinations.  No destination is the currency, which stays at its zero
  value.
\<close>

definition scanExpense :: "sqlval list \<Rightarrow> error + Expense" where
  "scanExpense row =
     (case row of
        [vid, vrecurring, vname, vcategory, vamount, vdate, vtags] \<Rightarrow>
          (case (asText vid, asText vname, asText vcategory, asNumeric vamount, asTimestamp vdate) of
             (Some i, Some n, Some c, Some a, Some d) \<Rightarrow>
               Inr \<lparr>ID = i, RecurringID = nullString vrecurring, Name = n, Tags = nullTags vtags,
                    Category = c, Amount = a, Currency = [], Date = d\<rparr>
           | _ \<Rightarrow> Inl ScanType)
      | _ \<Rightarrow> Inl (ScanArity (length row) 7))"

text \<open>
  \<^verbatim>\<open>scanRecurringExpense\<close> passes nine destinations: id, name, amount, currency,
  category, start date, interval, occurrences, tags.
\<close>

definition scanRecurringExpense :: "sqlval list \<Rightarrow> error + RecurringExpense" where
  "scanRecurringExpense row =
     (case row of
        [vid, vname, vamount, vcurrency, vcategory, vstart, vinterval, voccurrences, vtags] \<Rightarrow>
          (case (asText vid, asText vname, asNumeric vamount, asText vcurrency) of
             (Some i, Some n, Some a, Some cu) \<Rightarrow>
               (case (asText vcategory, asTimestamp vstart, asText vinterval, asInteger voccurrences) of
                  (Some ca, Some st, Some iv, Some oc) \<Rightarrow>
                    Inr \<lparr>rID = i, rName = n, rAmount = a, rCurrency = cu, rTags = nullTags vtags,
                         rCategory = ca, StartDate = inUTC st, Interval = iv, Occurrences = oc\<rparr>
                | _ \<Rightarrow> Inl ScanType)
           | _ \<Rightarrow> Inl ScanType)
      | _ \<Rightarrow> Inl (ScanArity (length row) 9))"

text \<open>The loop over \<^verbatim>\<open>rows.Next()\<close>: the first row that fails to scan ends it.\<close>

fun scanRows :: "(sqlval list \<Rightarrow> error + 'a) \<Rightarrow> sqlval list list \<Rightarrow> error + 'a list" where
  "scanRows scan [] = Inr []"
| "scanRows scan (row # rows) =
     (case scan row of
        Inl err \<Rightarrow> Inl err
      | Inr x \<Rightarrow> (case scanRows scan rows of Inl err \<Rightarrow> Inl err | Inr xs \<Rightarrow> Inr (x # xs)))"

text \<open>
  \<^verbatim>\<open>ORDER BY date DESC\<close>: every row goes before the first row with a strictly earlier
  date.  SQL leaves the order of rows with equal dates open; the model keeps them in
  table order.
\<close>

fun insertByDateDesc :: "Expense \<Rightarrow> Expense list \<Rightarrow> Expense list" where
  "insertByDateDesc e [] = [e]"
| "insertByDateDesc e (x # xs) =
     (if Before (Date x) (Date e) then e # x # xs else x # insertByDateDesc e xs)"

definition orderByDateDesc :: "Expense list \<Rightarrow> Expense list" where
  "orderByDateDesc rows = fold insertByDateDesc rows []"

subsection \<open>Configuration\<close>

text \<open>
  \<^verbatim>\<open>saveConfig\<close>: the upsert, then the two assignments to \<^verbatim>\<open>defaults\<close>, then
  \<^verbatim>\<open>return err\<close>.
\<close>

definition databaseStore_saveConfig ::
    "dbIO \<Rightarrow> Config \<Rightarrow> databaseStore \<Rightarrow> error option \<times> databaseStore" where
  "databaseStore_saveConfig io cfg s =
     (let s1 = (if execOk io
                then s\<lparr>config := Some (Categories cfg, cCurrency cfg, cStartDate cfg)\<rparr>
                else s);
          s2 = s1\<lparr>dbDefaults := (dbDefaults s1)(''currency'' \<mapsto> cCurrency cfg,
                                                 ''start_date'' \<mapsto> showInt (cStartDate cfg))\<rparr>
      in (if execOk io then None else Some SubstrateFailure, s2))"

definition recurringColumns9 :: "string list" where
  "recurringColumns9 = [''id'', ''name'', ''amount'', ''currency'', ''category'', ''start_date'',
     ''interval'', ''occurrences'', ''tags'']"

definition databaseStore_GetRecurringExpenses ::
    "dbIO \<Rightarrow> databaseStore \<Rightarrow> error + RecurringExpense list" where
  "databaseStore_GetRecurringExpenses io s =
     (if \<not> queryOk io then Inl SubstrateFailure
      else scanRows scanRecurringExpense
             (map (\<lambda>r. map (recurringColumn r) recurringColumns9) (recurring_expenses s)))"

text \<open>
  \<^verbatim>\<open>GetConfig\<close>: without a row the base configuration is saved and returned; with a
  row the rules are read from their table.
\<close>

definition databaseStore_GetConfig ::
    "dbIO \<Rightarrow> databaseStore \<Rightarrow> (error + Config) \<times> databaseStore" where
  "databaseStore_GetConfig io s =
     (if \<not> queryOk io then (Inl SubstrateFailure, s)
      else case config s of
        None \<Rightarrow>
          (case databaseStore_saveConfig io SetBaseConfig s of
             (Some err, s') \<Rightarrow> (Inl err, s')
           | (None, s') \<Rightarrow> (Inr SetBaseConfig, s'))
      | Some (categories, currency, startDate) \<Rightarrow>
          (case databaseStore_GetRecurringExpenses io s of
             Inl err \<Rightarrow> (Inl err, s)
           | Inr recurring \<Rightarrow>
               (Inr \<lparr>Categories = categories, cCurrency = currency, cStartDate = startDate,
                     RecurringExpenses = recurring\<rparr>, s)))"

definition databaseStore_updateConfig ::
    "dbIO \<Rightarrow> (Config \<Rightarrow> error + Config) \<Rightarrow> databaseStore \<Rightarrow> error option \<times> databaseStore" where
  "databaseStore_updateConfig io updater s =
     (case databaseStore_GetConfig io s of
        (Inl err, s') \<Rightarrow> (Some err, s')
      | (Inr cfg, s') \<Rightarrow>
          (case updater cfg of
             Inl err \<Rightarrow> (Some err, s')
           | Inr cfg' \<Rightarrow> databaseStore_saveConfig io cfg' s'))"

definition databaseStore_UpdateCategories ::
    "dbIO \<Rightarrow> string list \<Rightarrow> databaseStore \<Rightarrow> error option \<times> databaseStore" where
  "databaseStore_UpdateCategories io categories s =
     databaseStore_updateConfig io (\<lambda>c. Inr (c\<lparr>Categories := categories\<rparr>)) s"



subsection \<open>Expenses\<close>

definition expenseColumns7 :: "string list" where
  "expenseColumns7 = [''id'', ''recurring_id'', ''name'', ''category'', ''amount'', ''date'', ''tags'']"

definition databaseStore_GetAllExpenses :: "dbIO \<Rightarrow> databaseStore \<Rightarrow> error + Expense list" where
  "databaseStore_GetAllExpenses io s =
     (if \<not> queryOk io then Inl SubstrateFailure
      else scanRows scanExpense
             (map (\<lambda>e. map (expenseColumn e) expenseColumns7) (orderByDateDesc (expenses s))))"

text \<open>\<^verbatim>\<open>QueryRow(...).Scan\<close> gives \<^verbatim>\<open>sql.ErrNoRows\<close> when no row has the identifier.\<close>

definition databaseStore_GetExpense :: "dbIO \<Rightarrow> string \<Rightarrow> databaseStore \<Rightarrow> error + Expense" where
  "databaseStore_GetExpense io ident s =
     (if \<not> queryOk io then Inl SubstrateFailure
      else case find (\<lambda>e. ID e = ident) (expenses s) of
        None \<Rightarrow> Inl NotFound
      | Some e \<Rightarrow> scanExpense (map (expenseColumn e) expenseColumns7))"

definition databaseStore_AddExpense ::
    "dbIO \<Rightarrow> string \<Rightarrow> Time \<Rightarrow> Expense \<Rightarrow> databaseStore \<Rightarrow> error option \<times> databaseStore" where
  "databaseStore_AddExpense io newID now expense s =
     (let e = assignExpenseDefaults (dbDefaults s) newID now expense
      in if \<not> execOk io then (Some SubstrateFailure, s)
         else if ID e \<in> ID ` set (expenses s) then (Some UniqueViolation, s)
         else (None, s\<lparr>expenses := expenses s @ [e]\<rparr>))"

text \<open>
  \<^verbatim>\<open>UPDATE expenses SET ... WHERE id = $8\<close> assigns every column but the key of the rows
  with that key.
\<close>

definition databaseStore_UpdateExpense ::
    "dbIO \<Rightarrow> string \<Rightarrow> Expense \<Rightarrow> databaseStore \<Rightarrow> error option \<times> databaseStore" where
  "databaseStore_UpdateExpense io ident expense s =
     (let e = (if Currency expense = []
               then expense\<lparr>Currency := mapGet (dbDefaults s) ''currency''\<rparr> else expense)
      in if \<not> execOk io then (Some SubstrateFailure, s)
         else if length (filter (\<lambda>row. ID row = ident) (expenses s)) = 0 then (Some NotFound, s)
         else (None, s\<lparr>expenses :=
                 map (\<lambda>row. if ID row = ident then e\<lparr>ID := ID row\<rparr> else row) (expenses s)\<rparr>))"

definition databaseStore_RemoveExpense ::
    "dbIO \<Rightarrow> string \<Rightarrow> databaseStore \<Rightarrow> error option \<times> databaseStore" where
  "databaseStore_RemoveExpense io ident s =
     (if \<not> execOk io then (Some SubstrateFailure, s)
      else if length (filter (\<lambda>row. ID row = ident) (expenses s)) = 0 then (Some NotFound, s)
      else (None, s\<lparr>expenses := filter (\<lambda>row. ID row \<noteq> ident) (expenses s)\<rparr>))"

text \<open>
  \<^verbatim>\<open>AddMultipleExpenses\<close> calls \<^verbatim>\<open>AddExpense\<close> for each element and stops at the first
  error; \<open>uuid k\<close> is the identifier on offer when element \<open>k\<close> is added.
\<close>

fun databaseStore_addEach ::
    "dbIO \<Rightarrow> (nat \<Rightarrow> string) \<Rightarrow> Time \<Rightarrow> nat \<Rightarrow> Expense list \<Rightarrow> databaseStore
       \<Rightarrow> error option \<times> databaseStore" where
  "databaseStore_addEach io uuid now k [] s = (None, s)"
| "databaseStore_addEach io uuid now k (e # es) s =
     (case databaseStore_AddExpense io (uuid k) now e s of
        (Some err, s') \<Rightarrow> (Some err, s')
      | (None, s') \<Rightarrow> databaseStore_addEach io uuid now (Suc k) es s')"

definition databaseStore_AddMultipleExpenses ::
    "dbIO \<Rightarrow> (nat \<Rightarrow> string) \<Rightarrow> Time \<Rightarrow> Expense list \<Rightarrow> databaseStore
       \<Rightarrow> error option \<times> databaseStore" where
  "databaseStore_AddMultipleExpenses io uuid now es s =
     (if length es = 0 then (None, s) else databaseStore_addEach io uuid now 0 es s)"

definition databaseStore_RemoveMultipleExpenses ::
    "dbIO \<Rightarrow> string list \<Rightarrow> databaseStore \<Rightarrow> error option \<times> databaseStore" where
  "databaseStore_RemoveMultipleExpenses io ids s =
     (if length ids = 0 then (None, s)
      else if \<not> execOk io then (Some SubstrateFailure, s)
      else (None, s\<lparr>expenses := filter (\<lambda>row. ID row \<notin> set ids) (expenses s)\<rparr>))"

subsection \<open>Rules\<close>

text \<open>
  The query of \<^verbatim>\<open>GetRecurringExpense\<close> selects eight columns (no currency) and hands the
  row to \<^verbatim>\<open>scanRecurringExpense\<close>.
\<close>

definition recurringColumns8 :: "string list" where
  "recurringColumns8 = [''id'', ''name'', ''amount'', ''category'', ''start_date'', ''interval'',
     ''occurrences'', ''tags'']"

definition databaseStore_GetRecurringExpense ::
    "dbIO \<Rightarrow> string \<Rightarrow> databaseStore \<Rightarrow> error + RecurringExpense" where
  "databaseStore_GetRecurringExpense io ident s =
     (if \<not> queryOk io then Inl SubstrateFailure
      else case find (\<lambda>r. rID r = ident) (recurring_expenses s) of
        None \<Rightarrow> Inl NotFound
      | Some r \<Rightarrow> scanRecurringExpense (map (recurringColumn r) recurringColumns8))"

text \<open>
  The bulk copy (\<^verbatim>\<open>pq.CopyIn\<close>) of the generated records: it fails as a whole when an
  identifier is already in the table or occurs twice in the batch.
\<close>

definition copyIn :: "Expense list \<Rightarrow> Expense list \<Rightarrow> error + Expense list" where
  "copyIn batch tbl =
     (if distinct (map ID batch) \<and> ID ` set batch \<inter> ID ` set tbl = {}
      then Inr (tbl @ batch) else Inl UniqueViolation)"

definition databaseStore_AddRecurringExpense ::
    "dbIO \<Rightarrow> (nat \<Rightarrow> string) \<Rightarrow> Time \<Rightarrow> RecurringExpense \<Rightarrow> databaseStore
       \<Rightarrow> error option \<times> databaseStore" where
  "databaseStore_AddRecurringExpense io uuid now recurringExpense s =
     (if \<not> beginOk io then (Some SubstrateFailure, s)
      else case assignRuleID uuid recurringExpense of (re1, uuid') \<Rightarrow>
        let re2 = assignRuleCurrency (dbDefaults s) re1 in
        if \<not> execOk io then (Some SubstrateFailure, s)
        else if rID re2 \<in> rID ` set (recurring_expenses s) then (Some UniqueViolation, s)
        else let expensesToAdd = generateExpensesFromRecurring re2 False now uuid' in
          case (if length expensesToAdd > 0 then copyIn expensesToAdd (expenses s)
                else Inr (expenses s)) of
            Inl err \<Rightarrow> (Some err, s)
          | Inr tbl \<Rightarrow>
              if \<not> commitOk io then (Some SubstrateFailure, s)
              else (None, s\<lparr>recurring_expenses := recurring_expenses s @ [re2],
                            expenses := tbl\<rparr>))"

definition databaseStore_UpdateRecurringExpense ::
    "dbIO \<Rightarrow> (nat \<Rightarrow> string) \<Rightarrow> Time \<Rightarrow> Time \<Rightarrow> string \<Rightarrow> RecurringExpense \<Rightarrow> bool
       \<Rightarrow> databaseStore \<Rightarrow> error option \<times> databaseStore" where
  "databaseStore_UpdateRecurringExpense io uuid today genNow ident recurringExpense updateAll s =
     (if \<not> beginOk io then (Some SubstrateFailure, s)
      else let re = assignRuleCurrency (dbDefaults s) (recurringExpense\<lparr>rID := ident\<rparr>) in
        if \<not> execOk io then (Some SubstrateFailure, s)
        else if length (filter (\<lambda>r. rID r = ident) (recurring_expenses s)) = 0
          then (Some NotFound, s)
        else let rules = map (\<lambda>r. if rID r = ident then re else r) (recurring_expenses s);
                 remaining = filter (keepInstance ident updateAll today) (expenses s);
                 expensesToAdd = generateExpensesFromRecurring re (\<not> updateAll) genNow uuid in
          case (if length expensesToAdd > 0 then copyIn expensesToAdd remaining
                else Inr remaining) of
            Inl err \<Rightarrow> (Some err, s)
          | Inr tbl \<Rightarrow>
              if \<not> commitOk io then (Some SubstrateFailure, s)
              else (None, s\<lparr>recurring_expenses := rules, expenses := tbl\<rparr>))"

definition databaseStore_RemoveRecurringExpense ::
    "dbIO \<Rightarrow> Time \<Rightarrow> string \<Rightarrow> bool \<Rightarrow> databaseStore \<Rightarrow> error option \<times> databaseStore" where
  "databaseStore_RemoveRecurringExpense io today ident removeAll' s =
     (if \<not> beginOk io then (Some SubstrateFailure, s)
      else if \<not> execOk io then (Some SubstrateFailure, s)
      else if length (filter (\<lambda>r. rID r = ident) (recurring_expenses s)) = 0
        then (Some NotFound, s)
      else if \<not> commitOk io then (Some SubstrateFailure, s)
      else (None, s\<lparr>recurring_expenses := filter (\<lambda>r. rID r \<noteq> ident) (recurring_expenses s),
                    expenses := filter (keepInstance ident removeAll' today) (expenses s)\<rparr>))"

section \<open>Removing and updating a rule\<close>

lemma keepInstance_iff:
  "keepInstance ident all today e \<longleftrightarrow> \<not> (RecurringID e = ident \<and> (all \<or> After (Date e) today))"
  by (auto simp: keepInstance_def)

text \<open>
  Claim C4.  When a rule with the identifier is stored and the substrate does not fail,
  \<^verbatim>\<open>RemoveRecurringExpense\<close> succeeds on both stores and removes exactly the records
  whose back-reference is the identifier and which, unless \<^verbatim>\<open>removeAll\<close> is set, are
  dated strictly after the call time.  All other records, among them the back-referenced
  ones dated at or before the call time, stay in the store unchanged and in their order.
\<close>

theorem remove_rule_cascade:
  assumes "ident \<in> rID ` set (RecurringExpenses (configDoc js))"
      and "ident \<in> rID ` set (recurring_expenses db)"
      and "readConfigOk fio" "writeConfigOk fio" "readExpensesOk fio" "writeExpensesOk fio"
      and "beginOk dio" "execOk dio" "commitOk dio"
  shows "fst (jsonStore_RemoveRecurringExpense fio today ident all js) = None
       \<and> expensesDoc (snd (jsonStore_RemoveRecurringExpense fio today ident all js))
           = filter (\<lambda>e. \<not> (RecurringID e = ident \<and> (all \<or> After (Date e) today))) (expensesDoc js)
       \<and> fst (databaseStore_RemoveRecurringExpense dio today ident all db) = None
       \<and> expenses (snd (databaseStore_RemoveRecurringExpense dio today ident all db))
           = filter (\<lambda>e. \<not> (RecurringID e = ident \<and> (all \<or> After (Date e) today))) (expenses db)"
proof -
  have j: "\<exists>r \<in> set (RecurringExpenses (configDoc js)). rID r = ident"
    using assms(1) by auto
  have d: "length (filter (\<lambda>r. rID r = ident) (recurring_expenses db)) \<noteq> 0"
    using assms(2) by (auto simp: filter_empty_conv)
  have k: "keepInstance ident all today = (\<lambda>e. \<not> (RecurringID e = ident \<and> (all \<or> After (Date e) today)))"
    by (rule ext) (rule keepInstance_iff)
  have "jsonStore_RemoveRecurringExpense fio today ident all js
      = (None, js\<lparr>expensesDoc := filter (keepInstance ident all today) (expensesDoc js),
                   configDoc := (configDoc js)\<lparr>RecurringExpenses :=
                      filter (\<lambda>r. rID r \<noteq> ident) (RecurringExpenses (configDoc js))\<rparr>\<rparr>)"
    using j assms(3-6)
    by (simp add: jsonStore_RemoveRecurringExpense_def readConfigFile_def readExpensesFile_def
          writeExpensesFile_def writeConfigFile_def Let_def)
  moreover have "databaseStore_RemoveRecurringExpense dio today ident all db
      = (None, db\<lparr>recurring_expenses := filter (\<lambda>r. rID r \<noteq> ident) (recurring_expenses db),
                    expenses := filter (keepInstance ident all today) (expenses db)\<rparr>)"
    using d assms(7-9) by (simp add: databaseStore_RemoveRecurringExpense_def)
  ultimately show ?thesis by (simp add: k)
qed

text \<open>
  A small store for the concrete checks: the rule \<open>jan15\<close>, one of its instances in the
  past and one in the future of 1 February 2024, and a manual expense.
\<close>

definition feb1 :: Time where
  "feb1 = \<lparr>day = 738916, nsec = 0\<rparr>"

definition instanceOf :: "string \<Rightarrow> string \<Rightarrow> int \<Rightarrow> Expense" where
  "instanceOf i r d = \<lparr>ID = i, RecurringID = r, Name = ''Rent'', Tags = [], Category = ''Rent'',
     Amount = - 950, Currency = ''usd'', Date = \<lparr>day = d, nsec = 0\<rparr>\<rparr>"

definition sampleExpenses :: "Expense list" where
  "sampleExpenses = [instanceOf ''e1'' ''rule-1'' 738899, instanceOf ''e2'' ''rule-1'' 738930,
     instanceOf ''e3'' [] 738930]"

definition sampleJson :: jsonStore where
  "sampleJson = \<lparr>configDoc = SetBaseConfig\<lparr>RecurringExpenses := [jan15]\<rparr>,
     expensesDoc = sampleExpenses, defaults = Map.empty\<rparr>"

definition sampleDb :: databaseStore where
  "sampleDb = \<lparr>expenses = sampleExpenses, recurring_expenses = [jan15],
     config = Some (defaultCategories, ''usd'', 1), dbDefaults = Map.empty\<rparr>"

definition fileOk :: fileIO where
  "fileOk = \<lparr>readConfigOk = True, writeConfigOk = True, readExpensesOk = True,
     writeExpensesOk = True\<rparr>"

definition dbOk :: dbIO where
  "dbOk = \<lparr>beginOk = True, queryOk = True, execOk = True, commitOk = True\<rparr>"

theorem remove_rule_cascade_witness:
  "expensesDoc (snd (jsonStore_RemoveRecurringExpense fileOk feb1 ''rule-1'' False sampleJson))
     = [instanceOf ''e1'' ''rule-1'' 738899, instanceOf ''e3'' [] 738930]
   \<and> expenses (snd (databaseStore_RemoveRecurringExpense dbOk feb1 ''rule-1'' False sampleDb))
     = [instanceOf ''e1'' ''rule-1'' 738899, instanceOf ''e3'' [] 738930]"
  using remove_rule_cascade[of "''rule-1''" sampleJson sampleDb fileOk dbOk feb1 False]
  by (simp add: sampleJson_def sampleDb_def fileOk_def dbOk_def jan15_def sampleExpenses_def
        instanceOf_def feb1_def After_def)

lemma find_replaceRule:
  "\<exists>r \<in> set rs. rID r = ident \<Longrightarrow> rID new = ident \<Longrightarrow>
     find (\<lambda>r. rID r = ident) (replaceRule ident new rs) = Some new"
  by (induction rs) auto

lemma find_map_replace:
  "\<exists>r \<in> set rs. rID r = ident \<Longrightarrow> rID new = ident \<Longrightarrow>
     find (\<lambda>r. rID r = ident) (map (\<lambda>r. if rID r = ident then new else r) rs) = Some new"
  by (induction rs) auto

lemma length_replaceRule: "length (replaceRule ident new rs) = length rs"
  by (induction rs) auto

lemma rID_assignRuleCurrency: "rID (assignRuleCurrency d r) = rID r"
  by (simp add: assignRuleCurrency_def)

text \<open>
  Claim C5.  When a rule with the identifier is stored, the substrate does not fail and
  the generated identifiers are fresh, \<^verbatim>\<open>UpdateRecurringExpense\<close> with
  \<^verbatim>\<open>updateAll = false\<close> succeeds on both stores.  The stored records back-referencing the
  rule and dated strictly after the call time are removed, every other record stays
  unchanged, and the records of \<^verbatim>\<open>generateExpensesFromRecurring(newRule, true)\<close> are
  added, where \<open>newRule\<close> carries the identifier of the call and the currency default.
  That rule is the one stored under the identifier afterwards.
\<close>

theorem update_rule_future_only:
  assumes "ident \<in> rID ` set (RecurringExpenses (configDoc js))"
      and "ident \<in> rID ` set (recurring_expenses db)"
      and "readConfigOk fio" "writeConfigOk fio" "readExpensesOk fio" "writeExpensesOk fio"
      and "beginOk dio" "execOk dio" "commitOk dio"
      and "distinct (map ID (generateExpensesFromRecurring
              (assignRuleCurrency (dbDefaults db) (newRule\<lparr>rID := ident\<rparr>)) True genNow uuid))"
      and "ID ` set (generateExpensesFromRecurring
              (assignRuleCurrency (dbDefaults db) (newRule\<lparr>rID := ident\<rparr>)) True genNow uuid)
            \<inter> ID ` set (expenses db) = {}"
  shows "fst (jsonStore_UpdateRecurringExpense fio uuid today genNow ident newRule False js) = None
       \<and> expensesDoc (snd (jsonStore_UpdateRecurringExpense fio uuid today genNow ident newRule False js))
           = filter (\<lambda>e. \<not> (RecurringID e = ident \<and> After (Date e) today)) (expensesDoc js)
             @ generateExpensesFromRecurring
                 (assignRuleCurrency (defaults js) (newRule\<lparr>rID := ident\<rparr>)) True genNow uuid
       \<and> find (\<lambda>r. rID r = ident)
            (RecurringExpenses (configDoc
               (snd (jsonStore_UpdateRecurringExpense fio uuid today genNow ident newRule False js))))
           = Some (assignRuleCurrency (defaults js) (newRule\<lparr>rID := ident\<rparr>))
       \<and> fst (databaseStore_UpdateRecurringExpense dio uuid today genNow ident newRule False db) = None
       \<and> expenses (snd (databaseStore_UpdateRecurringExpense dio uuid today genNow ident newRule False db))
           = filter (\<lambda>e. \<not> (RecurringID e = ident \<and> After (Date e) today)) (expenses db)
             @ generateExpensesFromRecurring
                 (assignRuleCurrency (dbDefaults db) (newRule\<lparr>rID := ident\<rparr>)) True genNow uuid
       \<and> find (\<lambda>r. rID r = ident)
            (recurring_expenses
               (snd (databaseStore_UpdateRecurringExpense dio uuid today genNow ident newRule False db)))
           = Some (assignRuleCurrency (dbDefaults db) (newRule\<lparr>rID := ident\<rparr>))"
proof -
  let ?rj = "assignRuleCurrency (defaults js) (newRule\<lparr>rID := ident\<rparr>)"
  let ?rd = "assignRuleCurrency (dbDefaults db) (newRule\<lparr>rID := ident\<rparr>)"
  let ?gd = "generateExpensesFromRecurring ?rd True genNow uuid"
  have j: "\<exists>r \<in> set (RecurringExpenses (configDoc js)). rID r = ident"
    using assms(1) by auto
  have d: "length (filter (\<lambda>r. rID r = ident) (recurring_expenses db)) \<noteq> 0"
    using assms(2) by (auto simp: filter_empty_conv)
  have k: "keepInstance ident False today = (\<lambda>e. \<not> (RecurringID e = ident \<and> After (Date e) today))"
    by (rule ext) (simp add: keepInstance_iff)
  have js: "jsonStore_UpdateRecurringExpense fio uuid today genNow ident newRule False js
      = (None, js\<lparr>expensesDoc := filter (keepInstance ident False today) (expensesDoc js)
                       @ generateExpensesFromRecurring ?rj True genNow uuid,
                   configDoc := (configDoc js)\<lparr>RecurringExpenses :=
                      replaceRule ident ?rj (RecurringExpenses (configDoc js))\<rparr>\<rparr>)"
    using j assms(3-6)
    by (simp add: jsonStore_UpdateRecurringExpense_def readConfigFile_def readExpensesFile_def
          writeExpensesFile_def writeConfigFile_def Let_def)
  have fj: "find (\<lambda>r. rID r = ident) (replaceRule ident ?rj (RecurringExpenses (configDoc js))) = Some ?rj"
    by (rule find_replaceRule[OF j]) (simp add: rID_assignRuleCurrency)
  have disj: "ID ` set ?gd \<inter> ID ` set (filter (keepInstance ident False today) (expenses db)) = {}"
    using assms(11) by auto
  have cp: "copyIn ?gd (filter (keepInstance ident False today) (expenses db))
      = Inr (filter (keepInstance ident False today) (expenses db) @ ?gd)"
    using assms(10) disj by (simp add: copyIn_def)
  have ds: "databaseStore_UpdateRecurringExpense dio uuid today genNow ident newRule False db
      = (None, db\<lparr>recurring_expenses := map (\<lambda>r. if rID r = ident then ?rd else r) (recurring_expenses db),
                    expenses := filter (keepInstance ident False today) (expenses db) @ ?gd\<rparr>)"
    using d assms(7-9) cp
    by (simp add: databaseStore_UpdateRecurringExpense_def Let_def)
  have fd: "find (\<lambda>r. rID r = ident) (map (\<lambda>r. if rID r = ident then ?rd else r) (recurring_expenses db))
      = Some ?rd"
    by (rule find_map_replace) (use assms(2) in \<open>auto simp: rID_assignRuleCurrency\<close>)
  show ?thesis using js fj ds fd by (simp add: k)
qed

text \<open>An identifier supply for the concrete checks.\<close>

definition xIds :: "nat \<Rightarrow> string" where
  "xIds k = replicate (Suc k) CHR ''x''"

lemma jan15_from_feb1:
  "generateExpensesFromRecurring jan15 True feb1 xIds
     = [(instanceOf ''x'' ''rule-1'' 738930), (instanceOf ''xx'' ''rule-1'' 738959)]"
  by (simp add: generateExpensesFromRecurring_def jan15_def feb1_def fastForward.simps Before_def
        stepInterval_def AddDate_def localDay_UTC jan15_civil jan15_days numeral_2_eq_2 xIds_def
        instanceOf_def instant_def)

theorem update_rule_future_only_witness:
  "expensesDoc (snd (jsonStore_UpdateRecurringExpense fileOk xIds feb1 feb1 ''rule-1'' jan15 False sampleJson))
     = [instanceOf ''e1'' ''rule-1'' 738899, instanceOf ''e3'' [] 738930,
        instanceOf ''x'' ''rule-1'' 738930, instanceOf ''xx'' ''rule-1'' 738959]
   \<and> expenses (snd (databaseStore_UpdateRecurringExpense dbOk xIds feb1 feb1 ''rule-1'' jan15 False sampleDb))
     = [instanceOf ''e1'' ''rule-1'' 738899, instanceOf ''e3'' [] 738930,
        instanceOf ''x'' ''rule-1'' 738930, instanceOf ''xx'' ''rule-1'' 738959]"
proof -
  have r: "assignRuleCurrency Map.empty (jan15\<lparr>rID := ''rule-1''\<rparr>) = jan15"
    by (simp add: assignRuleCurrency_def jan15_def)
  have i: "rID jan15 = ''rule-1''" by (simp add: jan15_def)
  show ?thesis
    using update_rule_future_only[of "''rule-1''" sampleJson sampleDb fileOk dbOk jan15 feb1 xIds feb1]
    by (simp add: sampleJson_def sampleDb_def fileOk_def dbOk_def r i jan15_from_feb1[unfolded feb1_def]
          sampleExpenses_def instanceOf_def feb1_def After_def)
qed

section \<open>Adding a rule\<close>

lemma jsonStore_AddRecurringExpense_ok:
  assumes "readConfigOk fio" "writeConfigOk fio" "readExpensesOk fio" "writeExpensesOk fio"
  shows "jsonStore_AddRecurringExpense fio uuid now r js =
     (None, js\<lparr>configDoc := (configDoc js)\<lparr>RecurringExpenses :=
                   RecurringExpenses (configDoc js)
                     @ [assignRuleCurrency (defaults js) (fst (assignRuleID uuid r))]\<rparr>,
                expensesDoc := expensesDoc js
                   @ generateExpensesFromRecurring
                       (assignRuleCurrency (defaults js) (fst (assignRuleID uuid r))) False now
                       (snd (assignRuleID uuid r))\<rparr>)"
  using assms
  by (cases "assignRuleID uuid r")
     (simp add: jsonStore_AddRecurringExpense_def readConfigFile_def writeConfigFile_def
        jsonStore_AddMultipleExpenses_def readExpensesFile_def writeExpensesFile_def Let_def)

lemma databaseStore_AddRecurringExpense_ok:
  assumes "beginOk dio" "execOk dio" "commitOk dio"
    and "rID (fst (assignRuleID uuid r)) \<notin> rID ` set (recurring_expenses db)"
    and "distinct (map ID (generateExpensesFromRecurring
              (assignRuleCurrency (dbDefaults db) (fst (assignRuleID uuid r))) False now
              (snd (assignRuleID uuid r))))"
    and "ID ` set (generateExpensesFromRecurring
              (assignRuleCurrency (dbDefaults db) (fst (assignRuleID uuid r))) False now
              (snd (assignRuleID uuid r)))
          \<inter> ID ` set (expenses db) = {}"
  shows "databaseStore_AddRecurringExpense dio uuid now r db =
     (None, db\<lparr>recurring_expenses := recurring_expenses db
                   @ [assignRuleCurrency (dbDefaults db) (fst (assignRuleID uuid r))],
                expenses := expenses db
                   @ generateExpensesFromRecurring
                       (assignRuleCurrency (dbDefaults db) (fst (assignRuleID uuid r))) False now
                       (snd (assignRuleID uuid r))\<rparr>)"
  using assms
  by (cases "assignRuleID uuid r")
     (simp add: databaseStore_AddRecurringExpense_def copyIn_def Let_def rID_assignRuleCurrency)

lemma Validate_rejects:
  "fst (Validate SanitizeString r) \<noteq> None \<longleftrightarrow>
     SanitizeString (rName r) = [] \<or> rCategory r = [] \<or> Occurrences r < 2
       \<or> IsZero (StartDate r) \<or> \<not> validInterval (Interval r)"
  by (simp add: Validate_def Let_def)

lemma Handler_rejects:
  "fst (Validate SanitizeString r) \<noteq> None \<Longrightarrow>
     Handler_AddRecurringExpense SanitizeString add r store = (400, store)"
  by (cases "Validate SanitizeString r") (auto simp: Handler_AddRecurringExpense_def)

text \<open>
  Claim C6, as the code has it.  Validation belongs to the API handler, not to the
  storage operation.  \<^verbatim>\<open>Validate\<close> rejects a rule exactly when its name is empty after
  sanitisation, its category is empty, it has fewer than two occurrences, its start date
  is zero or its interval is not recognised; the handler then answers 400 and does not
  call the store.  \<^verbatim>\<open>AddRecurringExpense\<close> of either store checks nothing: whatever rule
  it is given, it assigns the identifier and currency defaults, stores the rule and adds
  the records of \<^verbatim>\<open>generateExpensesFromRecurring(rule, false)\<close> (on the relational
  store provided the identifiers are fresh).
\<close>

theorem add_rule_validation:
  "(fst (Validate SanitizeString r) \<noteq> None \<longleftrightarrow>
      SanitizeString (rName r) = [] \<or> rCategory r = [] \<or> Occurrences r < 2
        \<or> IsZero (StartDate r) \<or> \<not> validInterval (Interval r))
   \<and> (fst (Validate SanitizeString r) \<noteq> None \<longrightarrow>
        Handler_AddRecurringExpense SanitizeString add r store = (400, store))
   \<and> (readConfigOk fio \<and> writeConfigOk fio \<and> readExpensesOk fio \<and> writeExpensesOk fio \<longrightarrow>
        jsonStore_AddRecurringExpense fio uuid now r js =
          (None, js\<lparr>configDoc := (configDoc js)\<lparr>RecurringExpenses :=
                        RecurringExpenses (configDoc js)
                          @ [assignRuleCurrency (defaults js) (fst (assignRuleID uuid r))]\<rparr>,
                     expensesDoc := expensesDoc js
                        @ generateExpensesFromRecurring
                            (assignRuleCurrency (defaults js) (fst (assignRuleID uuid r))) False now
                            (snd (assignRuleID uuid r))\<rparr>))
   \<and> (beginOk dio \<and> execOk dio \<and> commitOk dio
        \<and> rID (fst (assignRuleID uuid r)) \<notin> rID ` set (recurring_expenses db)
        \<and> distinct (map ID (generateExpensesFromRecurring
              (assignRuleCurrency (dbDefaults db) (fst (assignRuleID uuid r))) False now
              (snd (assignRuleID uuid r))))
        \<and> ID ` set (generateExpensesFromRecurring
              (assignRuleCurrency (dbDefaults db) (fst (assignRuleID uuid r))) False now
              (snd (assignRuleID uuid r)))
            \<inter> ID ` set (expenses db) = {} \<longrightarrow>
        databaseStore_AddRecurringExpense dio uuid now r db =
          (None, db\<lparr>recurring_expenses := recurring_expenses db
                        @ [assignRuleCurrency (dbDefaults db) (fst (assignRuleID uuid r))],
                     expenses := expenses db
                        @ generateExpensesFromRecurring
                            (assignRuleCurrency (dbDefaults db) (fst (assignRuleID uuid r))) False now
                            (snd (assignRuleID uuid r))\<rparr>))"
  using Validate_rejects[of SanitizeString r] Handler_rejects[of SanitizeString r add store]
    jsonStore_AddRecurringExpense_ok[where fio = fio and uuid = uuid and now = now and r = r and js = js]
    databaseStore_AddRecurringExpense_ok[where dio = dio and uuid = uuid and now = now and r = r and db = db]
  by blast

text \<open>A rule that fails every check of \<open>Validate\<close>.\<close>

definition badRule :: RecurringExpense where
  "badRule = \<lparr>rID = [], rName = [], rAmount = 0, rCurrency = [], rTags = [], rCategory = [],
     StartDate = \<lparr>day = 0, nsec = 0, loc = 0\<rparr>, Interval = ''hourly'', Occurrences = 1\<rparr>"

lemma badRule_generated:
  "generateExpensesFromRecurring (badRule\<lparr>rID := ''x''\<rparr>) False now (\<lambda>k. xIds (Suc k))
     = [\<lparr>ID = ''xx'', RecurringID = ''x'', Name = [], Tags = [], Category = [], Amount = 0,
         Currency = [], Date = \<lparr>day = 0, nsec = 0\<rparr>\<rparr>]"
  by (simp add: generateExpensesFromRecurring_def badRule_def stepInterval_def xIds_def instant_def)

text \<open>
  The claim as stated fails at the storage operation: the file-backed store accepts the
  invalid rule, stores it and materialises one record.
\<close>

theorem add_rule_validation_counterexample:
  "fst (Validate (\<lambda>s. s) badRule) = Some Invalid
   \<and> jsonStore_AddRecurringExpense fileOk xIds feb1 badRule InitializeJsonStore
       = (None, \<lparr>configDoc = SetBaseConfig\<lparr>RecurringExpenses := [badRule\<lparr>rID := ''x''\<rparr>]\<rparr>,
                 expensesDoc = [\<lparr>ID = ''xx'', RecurringID = ''x'', Name = [], Tags = [],
                    Category = [], Amount = 0, Currency = [], Date = \<lparr>day = 0, nsec = 0\<rparr>\<rparr>],
                 defaults = Map.empty\<rparr>)"
proof -
  have a: "assignRuleID xIds badRule = (badRule\<lparr>rID := ''x''\<rparr>, \<lambda>k. xIds (Suc k))"
    by (simp add: assignRuleID_def badRule_def xIds_def)
  have c: "assignRuleCurrency Map.empty (badRule\<lparr>rID := ''x''\<rparr>) = badRule\<lparr>rID := ''x''\<rparr>"
    by (simp add: assignRuleCurrency_def badRule_def mapGet_def)
  have v: "fst (Validate (\<lambda>s. s) badRule) = Some Invalid"
    by (simp add: Validate_def badRule_def)
  have "jsonStore_AddRecurringExpense fileOk xIds feb1 badRule InitializeJsonStore
       = (None, \<lparr>configDoc = SetBaseConfig\<lparr>RecurringExpenses := [badRule\<lparr>rID := ''x''\<rparr>]\<rparr>,
                 expensesDoc = [\<lparr>ID = ''xx'', RecurringID = ''x'', Name = [], Tags = [],
                    Category = [], Amount = 0, Currency = [], Date = \<lparr>day = 0, nsec = 0\<rparr>\<rparr>],
                 defaults = Map.empty\<rparr>)"
    by (simp add: jsonStore_AddRecurringExpense_def readConfigFile_def writeConfigFile_def
        jsonStore_AddMultipleExpenses_def readExpensesFile_def writeExpensesFile_def Let_def
        fileOk_def InitializeJsonStore_def a c badRule_generated SetBaseConfig_def)
  with v show ?thesis by simp
qed

theorem add_rule_validation_witness:
  "Handler_AddRecurringExpense (\<lambda>s. s) (jsonStore_AddRecurringExpense fileOk xIds feb1)
       badRule InitializeJsonStore = (400, InitializeJsonStore)
   \<and> expensesDoc (snd (jsonStore_AddRecurringExpense fileOk xIds feb1 jan15 InitializeJsonStore))
       = generateExpensesFromRecurring jan15 False feb1 xIds
   \<and> expenses (snd (databaseStore_AddRecurringExpense dbOk (\<lambda>k. ''id'') feb1
         (jan15\<lparr>Occurrences := 1\<rparr>) InitializePostgresStore))
       = generateExpensesFromRecurring (jan15\<lparr>Occurrences := 1\<rparr>) False feb1 (\<lambda>k. ''id'')"
proof -
  have a: "assignRuleID u (jan15\<lparr>Occurrences := n\<rparr>) = (jan15\<lparr>Occurrences := n\<rparr>, u)" for u n
    by (simp add: assignRuleID_def jan15_def)
  have a': "assignRuleID u jan15 = (jan15, u)" for u
    by (simp add: assignRuleID_def jan15_def)
  have c: "assignRuleCurrency Map.empty (jan15\<lparr>Occurrences := n\<rparr>) = jan15\<lparr>Occurrences := n\<rparr>" for n
    by (simp add: assignRuleCurrency_def jan15_def)
  have c': "assignRuleCurrency Map.empty jan15 = jan15"
    by (simp add: assignRuleCurrency_def jan15_def)
  have g: "generateExpensesFromRecurring (jan15\<lparr>Occurrences := 1\<rparr>) False feb1 (\<lambda>k. ''id'')
      = [instanceOf ''id'' ''rule-1'' 738899]"
    by (simp add: generateExpensesFromRecurring_def jan15_def jan15_days instanceOf_def
          stepInterval_def instant_def)
  show ?thesis
    using add_rule_validation[where SanitizeString = "\<lambda>s. s" and r = badRule
        and add = "jsonStore_AddRecurringExpense fileOk xIds feb1" and store = InitializeJsonStore
        and fio = fileOk and uuid = xIds and now = feb1 and js = InitializeJsonStore
        and dio = dbOk and db = InitializePostgresStore]
      add_rule_validation[where SanitizeString = "\<lambda>s. s" and r = jan15
        and add = "jsonStore_AddRecurringExpense fileOk xIds feb1" and store = InitializeJsonStore
        and fio = fileOk and uuid = xIds and now = feb1 and js = InitializeJsonStore
        and dio = dbOk and db = InitializePostgresStore]
      add_rule_validation[where SanitizeString = "\<lambda>s. s" and r = "jan15\<lparr>Occurrences := 1\<rparr>"
        and add = "jsonStore_AddRecurringExpense fileOk xIds feb1" and store = InitializeJsonStore
        and fio = fileOk and uuid = "\<lambda>k. ''id''" and now = feb1 and js = InitializeJsonStore
        and dio = dbOk and db = InitializePostgresStore]
    by (simp add: fileOk_def dbOk_def a a' c c' g InitializeJsonStore_def InitializePostgresStore_def
          badRule_def instanceOf_def)
qed

section \<open>Reading back what was stored\<close>

lemma find_key_absent: "k \<notin> f ` set xs \<Longrightarrow> find (\<lambda>x. f x = k) xs = None"
  by (induction xs) auto

lemma find_key_append:
  "k \<notin> f ` set xs \<Longrightarrow> f e = k \<Longrightarrow> find (\<lambda>x. f x = k) (xs @ [e]) = Some e"
  by (induction xs) auto

lemma find_key_present:
  "k \<in> f ` set xs \<Longrightarrow> \<exists>x \<in> set xs. f x = k \<and> find (\<lambda>x. f x = k) xs = Some x"
  by (induction xs) auto

lemma scanRecurringExpense_eight:
  "scanRecurringExpense (map (recurringColumn r) recurringColumns8) = Inl (ScanArity 8 9)"
  by (simp add: scanRecurringExpense_def recurringColumns8_def)

lemma scanRecurringExpense_nine:
  "scanRecurringExpense (map (recurringColumn r) recurringColumns9)
     = Inr (r\<lparr>StartDate := inUTC (instant (StartDate r))\<rparr>)"
  by (simp add: scanRecurringExpense_def recurringColumns9_def recurringColumn_def)

lemma jan15_inUTC: "jan15\<lparr>StartDate := inUTC (instant (StartDate jan15))\<rparr> = jan15"
  by (simp add: jan15_def inUTC_def instant_def)

lemma databaseStore_GetRecurringExpense_stored:
  assumes "queryOk io" "ident \<in> rID ` set (recurring_expenses s)"
  shows "databaseStore_GetRecurringExpense io ident s = Inl (ScanArity 8 9)"
proof -
  obtain r where "find (\<lambda>r. rID r = ident) (recurring_expenses s) = Some r"
    using find_key_present[OF assms(2)] by blast
  then show ?thesis using assms(1)
    by (simp add: databaseStore_GetRecurringExpense_def scanRecurringExpense_eight)
qed

lemma jsonStore_GetRecurringExpense_found:
  assumes "readConfigOk io"
  shows "(jsonStore_GetRecurringExpense io ident s = Inl NotFound
            \<longleftrightarrow> ident \<notin> rID ` set (RecurringExpenses (configDoc s)))
       \<and> (ident \<in> rID ` set (RecurringExpenses (configDoc s)) \<longrightarrow>
            (\<exists>r \<in> set (RecurringExpenses (configDoc s)). rID r = ident
               \<and> jsonStore_GetRecurringExpense io ident s = Inr r))"
proof (cases "ident \<in> rID ` set (RecurringExpenses (configDoc s))")
  case False
  then show ?thesis using assms find_key_absent[OF False]
    by (simp add: jsonStore_GetRecurringExpense_def jsonStore_GetRecurringExpenses_def
        jsonStore_GetConfig_def readConfigFile_def)
next
  case True
  from find_key_present[OF True] obtain r where
    "r \<in> set (RecurringExpenses (configDoc s))" "rID r = ident"
    "find (\<lambda>r. rID r = ident) (RecurringExpenses (configDoc s)) = Some r" by blast
  then show ?thesis using assms True
    by (auto simp: jsonStore_GetRecurringExpense_def jsonStore_GetRecurringExpenses_def
        jsonStore_GetConfig_def readConfigFile_def)
qed

text \<open>
  Claim C7.  The claim holds on the file-backed store (\<open>jsonStore_GetRecurringExpense_found\<close>).
  On the relational store \<^verbatim>\<open>GetRecurringExpense\<close> selects eight columns for nine
  destinations, so for every stored rule \<^verbatim>\<open>Scan\<close> fails and the operation returns an
  error (\<open>databaseStore_GetRecurringExpense_stored\<close>), while \<^verbatim>\<open>GetRecurringExpenses\<close>,
  which selects nine columns, returns the rule.  Evaluated on the sample stores:
\<close>

theorem get_rule_relational_fails:
  "databaseStore_GetRecurringExpense dbOk ''rule-1'' sampleDb = Inl (ScanArity 8 9)
   \<and> databaseStore_GetRecurringExpenses dbOk sampleDb = Inr [jan15]
   \<and> jsonStore_GetRecurringExpense fileOk ''rule-1'' sampleJson = Inr jan15"
proof -
  have i: "rID jan15 = ''rule-1''" by (simp add: jan15_def)
  show ?thesis
    by (simp add: databaseStore_GetRecurringExpense_def databaseStore_GetRecurringExpenses_def
        scanRecurringExpense_eight scanRecurringExpense_nine jan15_inUTC dbOk_def sampleDb_def i
        jsonStore_GetRecurringExpense_def jsonStore_GetRecurringExpenses_def
        jsonStore_GetConfig_def readConfigFile_def fileOk_def sampleJson_def)
qed

lemma scanExpense_seven:
  "scanExpense (map (expenseColumn e) expenseColumns7) = Inr (e\<lparr>Currency := []\<rparr>)"
  by (simp add: scanExpense_def expenseColumns7_def expenseColumn_def)

lemma jsonStore_roundtrip:
  assumes "readExpensesOk io" "writeExpensesOk io"
    and "ID (assignExpenseDefaults (defaults s) newID now e) \<notin> ID ` set (expensesDoc s)"
  shows "fst (jsonStore_AddExpense io newID now e s) = None
       \<and> jsonStore_GetExpense io (ID (assignExpenseDefaults (defaults s) newID now e))
            (snd (jsonStore_AddExpense io newID now e s))
          = Inr (assignExpenseDefaults (defaults s) newID now e)"
proof -
  let ?e = "assignExpenseDefaults (defaults s) newID now e"
  have "find (\<lambda>x. ID x = ID ?e) (expensesDoc s @ [?e]) = Some ?e"
    using assms(3) by (rule find_key_append) simp
  then show ?thesis using assms(1,2)
    by (simp add: jsonStore_AddExpense_def jsonStore_GetExpense_def readExpensesFile_def
        writeExpensesFile_def)
qed

lemma databaseStore_roundtrip:
  assumes "queryOk io" "execOk io"
    and "ID (assignExpenseDefaults (dbDefaults s) newID now e) \<notin> ID ` set (expenses s)"
  shows "fst (databaseStore_AddExpense io newID now e s) = None
       \<and> databaseStore_GetExpense io (ID (assignExpenseDefaults (dbDefaults s) newID now e))
            (snd (databaseStore_AddExpense io newID now e s))
          = Inr ((assignExpenseDefaults (dbDefaults s) newID now e)\<lparr>Currency := []\<rparr>)"
proof -
  let ?e = "assignExpenseDefaults (dbDefaults s) newID now e"
  have "find (\<lambda>x. ID x = ID ?e) (expenses s @ [?e]) = Some ?e"
    using assms(3) by (rule find_key_append) simp
  then show ?thesis using assms
    by (simp add: databaseStore_AddExpense_def databaseStore_GetExpense_def Let_def
        scanExpense_seven)
qed

text \<open>
  Claim C8.  On the file-backed store an expense added under a fresh identifier is read
  back with every field as stored (\<open>jsonStore_roundtrip\<close>).  On the relational store
  \<^verbatim>\<open>scanExpense\<close> never reads the currency column, so the expense comes back with an
  empty currency (\<open>databaseStore_roundtrip\<close>).  Evaluated on an expense in US dollars:
\<close>

theorem expense_roundtrip_relational_drops_currency:
  "fst (databaseStore_AddExpense dbOk ''new'' feb1 (instanceOf ''e9'' [] 738930)
          InitializePostgresStore) = None
   \<and> databaseStore_GetExpense dbOk ''e9''
        (snd (databaseStore_AddExpense dbOk ''new'' feb1 (instanceOf ''e9'' [] 738930)
                InitializePostgresStore))
       = Inr ((instanceOf ''e9'' [] 738930)\<lparr>Currency := []\<rparr>)
   \<and> Currency (instanceOf ''e9'' [] 738930) = ''usd''
   \<and> jsonStore_GetExpense fileOk ''e9''
        (snd (jsonStore_AddExpense fileOk ''new'' feb1 (instanceOf ''e9'' [] 738930)
                InitializeJsonStore))
       = Inr (instanceOf ''e9'' [] 738930)"
proof -
  have d: "assignExpenseDefaults m ''new'' feb1 (instanceOf ''e9'' [] 738930)
      = instanceOf ''e9'' [] 738930" for m
    by (simp add: assignExpenseDefaults_def instanceOf_def IsZero_def Let_def)
  have i: "ID (instanceOf ''e9'' [] 738930) = ''e9''" "Currency (instanceOf ''e9'' [] 738930) = ''usd''"
    by (simp_all add: instanceOf_def)
  show ?thesis
    by (simp add: databaseStore_AddExpense_def databaseStore_GetExpense_def Let_def d i
        scanExpense_seven dbOk_def InitializePostgresStore_def
        jsonStore_AddExpense_def jsonStore_GetExpense_def readExpensesFile_def
        writeExpensesFile_def fileOk_def InitializeJsonStore_def)
qed

section \<open>The cache of defaults\<close>













section \<open>Concurrent writers on the file-backed store\<close>

text \<open>
  Two callers run one operation each against the same \<^verbatim>\<open>jsonStore\<close>.  An operation is
  the sequence of its steps on the shared state: taking and releasing the write lock
  (\<^verbatim>\<open>s.mu.Lock()\<close>, the deferred \<^verbatim>\<open>s.mu.Unlock()\<close>), reading the expenses document
  into the local variable \<^verbatim>\<open>data\<close>, changing \<^verbatim>\<open>data\<close>, and writing \<^verbatim>\<open>data\<close> back.  A
  schedule names the caller that takes the next step; a caller waiting for the lock does
  not move.  File accesses succeed.
\<close>

datatype action =
    Lock
  | Unlock
  | ReadExpensesFile
  | Mutate "Expense list \<Rightarrow> Expense list"
  | WriteExpensesFile

record caller =
  todo :: "action list"
  data :: "Expense list"

record shared =
  document :: "Expense list"
  writer :: "bool option"

text \<open>
  \<^verbatim>\<open>AddExpense\<close> brackets its read-modify-write cycle with the lock (the expense is
  taken with its defaults assigned); \<^verbatim>\<open>AddMultipleExpenses\<close> has the same cycle and no
  lock.
\<close>

definition AddExpense_steps :: "Expense \<Rightarrow> action list" where
  "AddExpense_steps expense =
     [Lock, ReadExpensesFile, Mutate (\<lambda>d. d @ [expense]), WriteExpensesFile, Unlock]"

definition AddMultipleExpenses_steps :: "Expense list \<Rightarrow> action list" where
  "AddMultipleExpenses_steps expensesToAdd =
     (if length expensesToAdd = 0 then []
      else [ReadExpensesFile, Mutate (\<lambda>d. d @ expensesToAdd), WriteExpensesFile])"

text \<open>One step of the caller \<open>me\<close> (\<open>False\<close> or \<open>True\<close>).\<close>

definition stepCaller :: "bool \<Rightarrow> caller \<Rightarrow> shared \<Rightarrow> caller \<times> shared" where
  "stepCaller me c sh =
     (case todo c of
        [] \<Rightarrow> (c, sh)
      | Lock # rest \<Rightarrow>
          (if writer sh = None then (c\<lparr>todo := rest\<rparr>, sh\<lparr>writer := Some me\<rparr>) else (c, sh))
      | Unlock # rest \<Rightarrow> (c\<lparr>todo := rest\<rparr>, sh\<lparr>writer := None\<rparr>)
      | ReadExpensesFile # rest \<Rightarrow> (c\<lparr>todo := rest, data := document sh\<rparr>, sh)
      | Mutate f # rest \<Rightarrow> (c\<lparr>todo := rest, data := f (data c)\<rparr>, sh)
      | WriteExpensesFile # rest \<Rightarrow> (c\<lparr>todo := rest\<rparr>, sh\<lparr>document := data c\<rparr>))"

fun runSchedule :: "bool list \<Rightarrow> caller \<times> caller \<times> shared \<Rightarrow> caller \<times> caller \<times> shared" where
  "runSchedule [] st = st"
| "runSchedule (who # sched) (a, b, sh) =
     (if who then (case stepCaller True b sh of (b', sh') \<Rightarrow> runSchedule sched (a, b', sh'))
      else (case stepCaller False a sh of (a', sh') \<Rightarrow> runSchedule sched (a', b, sh')))"

definition concurrently :: "action list \<Rightarrow> action list \<Rightarrow> bool list \<Rightarrow> Expense list \<Rightarrow> caller \<times> caller \<times> shared" where
  "concurrently p q sched doc =
     runSchedule sched (\<lparr>todo = p, data = []\<rparr>, \<lparr>todo = q, data = []\<rparr>,
                        \<lparr>document = doc, writer = None\<rparr>)"

text \<open>
  What the rest of an operation does to the document when nobody else moves, and the
  shapes an operation that brackets its steps with the lock can be in: not started or
  finished (\<open>outside\<close>), or between \<open>Lock\<close> and \<open>Unlock\<close> (\<open>inside\<close>).
\<close>

fun runAlone :: "action list \<Rightarrow> Expense list \<Rightarrow> Expense list \<Rightarrow> Expense list" where
  "runAlone [] d doc = doc"
| "runAlone (Lock # rest) d doc = runAlone rest d doc"
| "runAlone (Unlock # rest) d doc = runAlone rest d doc"
| "runAlone (ReadExpensesFile # rest) d doc = runAlone rest doc doc"
| "runAlone (Mutate f # rest) d doc = runAlone rest (f d) doc"
| "runAlone (WriteExpensesFile # rest) d doc = runAlone rest d d"

definition lockFree :: "action list \<Rightarrow> bool" where
  "lockFree body \<longleftrightarrow> Lock \<notin> set body \<and> Unlock \<notin> set body"

definition inside :: "action list \<Rightarrow> bool" where
  "inside t \<longleftrightarrow> (\<exists>body. t = body @ [Unlock] \<and> lockFree body)"

definition outside :: "action list \<Rightarrow> bool" where
  "outside t \<longleftrightarrow> t = [] \<or> (\<exists>body. t = Lock # body @ [Unlock] \<and> lockFree body)"

definition wellLocked :: "caller \<Rightarrow> caller \<Rightarrow> shared \<Rightarrow> bool" where
  "wellLocked a b sh \<longleftrightarrow>
     (case writer sh of
        None \<Rightarrow> outside (todo a) \<and> outside (todo b)
      | Some False \<Rightarrow> inside (todo a) \<and> outside (todo b)
      | Some True \<Rightarrow> outside (todo a) \<and> inside (todo b))"

lemma inside_cases:
  assumes "inside t"
  obtains "t = [Unlock]"
    | x rest where "t = x # rest" "x \<noteq> Lock" "x \<noteq> Unlock" "inside rest"
proof -
  from assms obtain body where t: "t = body @ [Unlock]" and lf: "lockFree body"
    by (auto simp: inside_def)
  show ?thesis
  proof (cases body)
    case Nil
    then show ?thesis using t that(1) by simp
  next
    case (Cons x rest)
    then have "t = x # (rest @ [Unlock])" "x \<noteq> Lock" "x \<noteq> Unlock" "inside (rest @ [Unlock])"
      using t lf by (auto simp: lockFree_def inside_def)
    then show ?thesis using that(2) by blast
  qed
qed

lemma outside_cases:
  assumes "outside t"
  obtains "t = []" | rest where "t = Lock # rest" "inside rest"
  using assms by (auto simp: outside_def inside_def)

lemma step_inside:
  assumes "inside (todo c)" "writer sh = Some me" "stepCaller me c sh = (c', sh')"
  shows "runAlone (todo c') (data c') (document sh') = runAlone (todo c) (data c) (document sh)
       \<and> ((writer sh' = Some me \<and> inside (todo c')) \<or> (writer sh' = None \<and> todo c' = []))"
  using assms(1)
proof (cases rule: inside_cases)
  case 1
  then show ?thesis using assms(2,3) by (auto simp: stepCaller_def)
next
  case (2 x rest)
  then show ?thesis using assms(2,3) by (cases x) (auto simp: stepCaller_def)
qed

lemma step_outside_free:
  assumes "outside (todo c)" "writer sh = None" "stepCaller me c sh = (c', sh')"
  shows "runAlone (todo c') (data c') (document sh') = runAlone (todo c) (data c) (document sh)
       \<and> ((writer sh' = Some me \<and> inside (todo c')) \<or> (sh' = sh \<and> c' = c \<and> todo c = []))"
  using assms(1)
proof (cases rule: outside_cases)
  case 1
  then show ?thesis using assms(2,3) by (auto simp: stepCaller_def)
next
  case (2 rest)
  then show ?thesis using assms(2,3) by (auto simp: stepCaller_def)
qed

lemma step_outside_blocked:
  assumes "outside (todo c)" "writer sh = Some other" "stepCaller me c sh = (c', sh')"
  shows "c' = c \<and> sh' = sh"
  using assms(1)
proof (cases rule: outside_cases)
  case 1
  then show ?thesis using assms(2,3) by (auto simp: stepCaller_def)
next
  case (2 rest)
  then show ?thesis using assms(2,3) by (auto simp: stepCaller_def)
qed

lemma complete_outside_done: "todo c = [] \<Longrightarrow> runAlone (todo c) d doc = doc"
  by simp

lemma locked_runs_serialise:
  assumes "wellLocked a b sh" "runSchedule sched (a, b, sh) = (a', b', sh')"
    "todo a' = []" "todo b' = []"
  shows "(writer sh = Some False \<longrightarrow>
            document sh' = runAlone (todo b) (data b) (runAlone (todo a) (data a) (document sh)))
       \<and> (writer sh = Some True \<longrightarrow>
            document sh' = runAlone (todo a) (data a) (runAlone (todo b) (data b) (document sh)))
       \<and> (writer sh = None \<longrightarrow>
            document sh' = runAlone (todo b) (data b) (runAlone (todo a) (data a) (document sh))
          \<or> document sh' = runAlone (todo a) (data a) (runAlone (todo b) (data b) (document sh)))"
  using assms
proof (induction sched arbitrary: a b sh)
  case Nil
  then show ?case by (auto simp: wellLocked_def split: option.splits bool.splits)
next
  case (Cons who sched)
  note wl = Cons.prems(1)
  show ?case
  proof (cases who)
    case False
    obtain a1 sh1 where st: "stepCaller False a sh = (a1, sh1)"
      by (cases "stepCaller False a sh") auto
    with Cons.prems(2) False have run: "runSchedule sched (a1, b, sh1) = (a', b', sh')" by simp
    show ?thesis
    proof (cases "writer sh")
      case None
      with wl have oa: "outside (todo a)" and ob: "outside (todo b)"
        by (simp_all add: wellLocked_def)
      from step_outside_free[OF oa None st]
      have inv: "runAlone (todo a1) (data a1) (document sh1) = runAlone (todo a) (data a) (document sh)"
        and alt: "(writer sh1 = Some False \<and> inside (todo a1)) \<or> (sh1 = sh \<and> a1 = a \<and> todo a = [])"
        by simp_all
      from alt show ?thesis
      proof
        assume h: "writer sh1 = Some False \<and> inside (todo a1)"
        then have "wellLocked a1 b sh1" using ob by (simp add: wellLocked_def)
        from Cons.IH[OF this run Cons.prems(3,4)] h inv None show ?thesis by simp
      next
        assume h: "sh1 = sh \<and> a1 = a \<and> todo a = []"
        then have "runSchedule sched (a, b, sh) = (a', b', sh')" using run by simp
        from Cons.IH[OF wl this Cons.prems(3,4)] show ?thesis .
      qed
    next
      case (Some holder)
      show ?thesis
      proof (cases holder)
        case True
        with Some wl have oa: "outside (todo a)" by (simp add: wellLocked_def)
        from step_outside_blocked[OF oa Some st] have "a1 = a \<and> sh1 = sh" .
        then have "runSchedule sched (a, b, sh) = (a', b', sh')" using run by simp
        from Cons.IH[OF wl this Cons.prems(3,4)] show ?thesis .
      next
        case False
        with Some have w: "writer sh = Some False" by simp
        with wl have ia: "inside (todo a)" and ob: "outside (todo b)"
          by (simp_all add: wellLocked_def)
        from step_inside[OF ia w st]
        have inv: "runAlone (todo a1) (data a1) (document sh1) = runAlone (todo a) (data a) (document sh)"
          and alt: "(writer sh1 = Some False \<and> inside (todo a1)) \<or> (writer sh1 = None \<and> todo a1 = [])"
          by simp_all
        from alt show ?thesis
        proof
          assume h: "writer sh1 = Some False \<and> inside (todo a1)"
          then have "wellLocked a1 b sh1" using ob by (simp add: wellLocked_def)
          from Cons.IH[OF this run Cons.prems(3,4)] h inv w show ?thesis by simp
        next
          assume h: "writer sh1 = None \<and> todo a1 = []"
          then have "wellLocked a1 b sh1" using ob by (simp add: wellLocked_def outside_def)
          from Cons.IH[OF this run Cons.prems(3,4)] h inv w show ?thesis by auto
        qed
      qed
    qed
  next
    case True
    obtain b1 sh1 where st: "stepCaller True b sh = (b1, sh1)"
      by (cases "stepCaller True b sh") auto
    with Cons.prems(2) True have run: "runSchedule sched (a, b1, sh1) = (a', b', sh')" by simp
    show ?thesis
    proof (cases "writer sh")
      case None
      with wl have oa: "outside (todo a)" and ob: "outside (todo b)"
        by (simp_all add: wellLocked_def)
      from step_outside_free[OF ob None st]
      have inv: "runAlone (todo b1) (data b1) (document sh1) = runAlone (todo b) (data b) (document sh)"
        and alt: "(writer sh1 = Some True \<and> inside (todo b1)) \<or> (sh1 = sh \<and> b1 = b \<and> todo b = [])"
        by simp_all
      from alt show ?thesis
      proof
        assume h: "writer sh1 = Some True \<and> inside (todo b1)"
        then have "wellLocked a b1 sh1" using oa by (simp add: wellLocked_def)
        from Cons.IH[OF this run Cons.prems(3,4)] h inv None show ?thesis by simp
      next
        assume h: "sh1 = sh \<and> b1 = b \<and> todo b = []"
        then have "runSchedule sched (a, b, sh) = (a', b', sh')" using run by simp
        from Cons.IH[OF wl this Cons.prems(3,4)] show ?thesis .
      qed
    next
      case (Some holder)
      show ?thesis
      proof (cases holder)
        case False
        with Some wl have ob: "outside (todo b)" by (simp add: wellLocked_def)
        from step_outside_blocked[OF ob Some st] have "b1 = b \<and> sh1 = sh" .
        then have "runSchedule sched (a, b, sh) = (a', b', sh')" using run by simp
        from Cons.IH[OF wl this Cons.prems(3,4)] show ?thesis .
      next
        case True
        with Some have w: "writer sh = Some True" by simp
        with wl have oa: "outside (todo a)" and ib: "inside (todo b)"
          by (simp_all add: wellLocked_def)
        from step_inside[OF ib w st]
        have inv: "runAlone (todo b1) (data b1) (document sh1) = runAlone (todo b) (data b) (document sh)"
          and alt: "(writer sh1 = Some True \<and> inside (todo b1)) \<or> (writer sh1 = None \<and> todo b1 = [])"
          by simp_all
        from alt show ?thesis
        proof
          assume h: "writer sh1 = Some True \<and> inside (todo b1)"
          then have "wellLocked a b1 sh1" using oa by (simp add: wellLocked_def)
          from Cons.IH[OF this run Cons.prems(3,4)] h inv w show ?thesis by simp
        next
          assume h: "writer sh1 = None \<and> todo b1 = []"
          then have "wellLocked a b1 sh1" using oa by (simp add: wellLocked_def outside_def)
          from Cons.IH[OF this run Cons.prems(3,4)] h inv w show ?thesis by auto
        qed
      qed
    qed
  qed
qed

text \<open>
  Two operations that bracket their steps with the lock, run under any schedule that lets
  both finish, leave the document of one of the two serial orders.
\<close>

lemma locked_writers_serialise:
  assumes "lockFree p" "lockFree q"
    and "concurrently (Lock # p @ [Unlock]) (Lock # q @ [Unlock]) sched doc = (a', b', sh')"
    and "todo a' = []" "todo b' = []"
  shows "document sh' = runAlone q [] (runAlone p [] doc)
       \<or> document sh' = runAlone p [] (runAlone q [] doc)"
proof -
  have ra: "runAlone (Lock # r @ [Unlock]) [] d = runAlone r [] d" if "lockFree r" for r d
  proof -
    have "runAlone (r @ [Unlock]) e d = runAlone r e d" for e
      using that by (induction r e d rule: runAlone.induct) (auto simp: lockFree_def)
    then show ?thesis by simp
  qed
  have wl: "wellLocked \<lparr>todo = Lock # p @ [Unlock], data = []\<rparr> \<lparr>todo = Lock # q @ [Unlock], data = []\<rparr>
              \<lparr>document = doc, writer = None\<rparr>"
    using assms(1,2) by (auto simp: wellLocked_def outside_def)
  from locked_runs_serialise[OF wl assms(3)[unfolded concurrently_def] assms(4,5)]
  show ?thesis using ra[OF assms(1)] ra[OF assms(2)] by simp
qed

text \<open>
  So two concurrent \<^verbatim>\<open>AddExpense\<close> calls always leave both expenses in the document.
\<close>

lemma AddExpense_calls_serialise:
  assumes "concurrently (AddExpense_steps x) (AddExpense_steps y) sched doc = (a', b', sh')"
    and "todo a' = []" "todo b' = []"
  shows "document sh' = doc @ [x, y] \<or> document sh' = doc @ [y, x]"
proof -
  let ?p = "\<lambda>e. [ReadExpensesFile, Mutate (\<lambda>d. d @ [e]), WriteExpensesFile]"
  have s: "AddExpense_steps e = Lock # ?p e @ [Unlock]" for e
    by (simp add: AddExpense_steps_def)
  have lf: "lockFree (?p e)" for e by (simp add: lockFree_def)
  from locked_writers_serialise[OF lf lf assms(1)[unfolded s] assms(2,3)]
  show ?thesis by simp
qed

text \<open>
  Claim C9 fails for \<^verbatim>\<open>AddMultipleExpenses\<close>, which runs its cycle without the lock.
  Two callers add one expense each to an empty document.  When one runs after the other
  the document holds both expenses, in either order.  When both read before either
  writes, both operations run to their end and the document holds only the second
  caller's expense, which is neither of the two serial outcomes.
\<close>

theorem unlocked_bulk_add_loses_update:
  "document (snd (snd (concurrently (AddMultipleExpenses_steps [instanceOf ''a'' [] 738899])
                (AddMultipleExpenses_steps [instanceOf ''b'' [] 738930])
                [False, False, False, True, True, True] [])))
     = [instanceOf ''a'' [] 738899, instanceOf ''b'' [] 738930]
   \<and> document (snd (snd (concurrently (AddMultipleExpenses_steps [instanceOf ''a'' [] 738899])
                (AddMultipleExpenses_steps [instanceOf ''b'' [] 738930])
                [True, True, True, False, False, False] [])))
     = [instanceOf ''b'' [] 738930, instanceOf ''a'' [] 738899]
   \<and> concurrently (AddMultipleExpenses_steps [instanceOf ''a'' [] 738899])
                (AddMultipleExpenses_steps [instanceOf ''b'' [] 738930])
                [False, True, False, False, True, True] []
     = (\<lparr>todo = [], data = [instanceOf ''a'' [] 738899]\<rparr>,
        \<lparr>todo = [], data = [instanceOf ''b'' [] 738930]\<rparr>,
        \<lparr>document = [instanceOf ''b'' [] 738930], writer = None\<rparr>)"
  by (simp add: concurrently_def AddMultipleExpenses_steps_def stepCaller_def)

end
